theory Spec2Isabelle
  imports Complex_Main "HOL-Library.Word" "HOL-Library.AList" "HOL-Library.Sublist"
begin

section \<open>JavaScript values\<close>

subsection \<open>Strings\<close>

text \<open>
  A JavaScript string is a sequence of 16-bit code units. Regular expressions without the
  \<open>u\<close> flag, \<open>split\<close>, \<open>trim\<close> and \<open>Number\<close> all work on code units.
  \<open>lit\<close> embeds a literal of the source (code units below 256).
\<close>

type_synonym jschar = "16 word"
type_synonym jsstring = "jschar list"

definition lit :: "string \<Rightarrow> jsstring" where
  "lit s = map (\<lambda>c. of_nat (of_char c)) s"

definition is_digit :: "jschar \<Rightarrow> bool" where
  "is_digit c = (0x30 \<le> c \<and> c \<le> 0x39)"

definition is_line_terminator :: "jschar \<Rightarrow> bool" where
  "is_line_terminator c = (c = 0x0A \<or> c = 0x0D \<or> c = 0x2028 \<or> c = 0x2029)"

text \<open>White space of ECMAScript: what \<open>trim\<close>, \<open>\s\<close> and \<open>Number\<close> skip.\<close>

definition is_space :: "jschar \<Rightarrow> bool" where
  "is_space c =
     (c = 0x09 \<or> c = 0x0B \<or> c = 0x0C \<or> c = 0x20 \<or> c = 0xA0 \<or> c = 0x1680
      \<or> (0x2000 \<le> c \<and> c \<le> 0x200A) \<or> c = 0x202F \<or> c = 0x205F \<or> c = 0x3000
      \<or> c = 0xFEFF \<or> is_line_terminator c)"

definition trim :: "jsstring \<Rightarrow> jsstring" where
  "trim s = rev (dropWhile is_space (rev (dropWhile is_space s)))"

text \<open>\<open>s.split(sep)\<close> for a separator of one code unit; the result is never empty.\<close>

fun str_split :: "jschar \<Rightarrow> jsstring \<Rightarrow> jsstring list" where
  "str_split sep [] = [[]]"
| "str_split sep (c # cs) =
     (if c = sep then [] # str_split sep cs
      else (case str_split sep cs of [] \<Rightarrow> [[c]] | p # ps \<Rightarrow> (c # p) # ps))"

subsection \<open>Numbers\<close>

text \<open>
  A Number is a binary64 value. The finite ones are kept as the rational they denote
  (\<open>Finite 0\<close> stands for both zeros, which \<open>\<or>\<close>, \<open><\<close> and \<open>>\<close> do not tell apart).
\<close>

datatype jsnum = NaN | Finite rat | PosInf | NegInf

fun js_lt :: "jsnum \<Rightarrow> jsnum \<Rightarrow> bool" where
  "js_lt NaN _ = False"
| "js_lt _ NaN = False"
| "js_lt (Finite x) (Finite y) = (x < y)"
| "js_lt (Finite x) PosInf = True"
| "js_lt (Finite x) NegInf = False"
| "js_lt PosInf _ = False"
| "js_lt NegInf NegInf = False"
| "js_lt NegInf _ = True"

definition js_gt :: "jsnum \<Rightarrow> jsnum \<Rightarrow> bool" where
  "js_gt a b = js_lt b a"

fun js_neg :: "jsnum \<Rightarrow> jsnum" where
  "js_neg NaN = NaN"
| "js_neg (Finite x) = Finite (- x)"
| "js_neg PosInf = NegInf"
| "js_neg NegInf = PosInf"

text \<open>Rounding a non-negative rational to the nearest binary64 value, ties to even.\<close>

function bit_length :: "int \<Rightarrow> int" where
  "bit_length n = (if n \<le> 0 then 0 else 1 + bit_length (n div 2))"
  by pat_completeness auto
termination
  by (relation "measure nat") auto

declare bit_length.simps [simp del]

text \<open>\<open>\<lfloor>log\<^sub>2 q\<rfloor>\<close> for a positive rational \<open>q = a / b\<close>.\<close>

definition floor_log2 :: "rat \<Rightarrow> int" where
  "floor_log2 q =
     (let (a, b) = quotient_of q in
      if b \<le> a then bit_length (a div b) - 1
      else - bit_length ((b - 1) div a))"

definition pow2 :: "int \<Rightarrow> rat" where
  "pow2 e = (if 0 \<le> e then 2 ^ nat e else 1 / 2 ^ nat (- e))"

definition round_half_even :: "rat \<Rightarrow> int" where
  "round_half_even x =
     (let f = \<lfloor>x\<rfloor>; d = x - of_int f in
      if d < 1 / 2 then f else if 1 / 2 < d then f + 1
      else if even f then f else f + 1)"

definition round_binary64 :: "rat \<Rightarrow> jsnum" where
  "round_binary64 q =
     (if q = 0 then Finite 0
      else
        (let e = max (- 1074) (floor_log2 q - 52);
             v = of_int (round_half_even (q / pow2 e)) * pow2 e
         in if 2 ^ 1024 \<le> v then PosInf else Finite v))"

text \<open>
  \<open>Number(s)\<close> on a string: the StringNumericLiteral grammar. White space is trimmed,
  the empty string is 0, a sign is allowed before a decimal literal or \<open>Infinity\<close> only,
  \<open>0x\<close>, \<open>0o\<close> and \<open>0b\<close> literals are unsigned, and anything else is NaN.
\<close>

definition digit_val :: "jschar \<Rightarrow> int" where
  "digit_val c =
     (if is_digit c then uint c - 0x30
      else if 0x61 \<le> c \<and> c \<le> 0x66 then uint c - 0x61 + 10
      else if 0x41 \<le> c \<and> c \<le> 0x46 then uint c - 0x41 + 10
      else 16)"

definition digits_val :: "int \<Rightarrow> jsstring \<Rightarrow> int" where
  "digits_val base ds = foldl (\<lambda>acc c. acc * base + digit_val c) 0 ds"

definition all_digits :: "int \<Rightarrow> jsstring \<Rightarrow> bool" where
  "all_digits base ds = (ds \<noteq> [] \<and> list_all (\<lambda>c. digit_val c < base) ds)"

definition pow10 :: "int \<Rightarrow> rat" where
  "pow10 e = (if 0 \<le> e then 10 ^ nat e else 1 / 10 ^ nat (- e))"

text \<open>The exponent part after \<open>e\<close> or \<open>E\<close>: an optionally signed, non-empty digit string.\<close>

definition signed_integer :: "jsstring \<Rightarrow> int option" where
  "signed_integer s =
     (case s of
        [] \<Rightarrow> None
      | c # r \<Rightarrow>
          if c = 0x2B then (if all_digits 10 r then Some (digits_val 10 r) else None)
          else if c = 0x2D then (if all_digits 10 r then Some (- digits_val 10 r) else None)
          else if all_digits 10 s then Some (digits_val 10 s) else None)"

text \<open>An unsigned decimal literal: digits, an optional fraction, an optional exponent.\<close>

definition unsigned_decimal :: "jsstring \<Rightarrow> rat option" where
  "unsigned_decimal s =
     (let ip = takeWhile is_digit s;
          r1 = dropWhile is_digit s;
          fp = (case r1 of [] \<Rightarrow> [] | c # r \<Rightarrow> if c = 0x2E then takeWhile is_digit r else []);
          r2 = (case r1 of [] \<Rightarrow> [] | c # r \<Rightarrow> if c = 0x2E then dropWhile is_digit r else r1);
          mant = of_int (digits_val 10 (ip @ fp)) * pow10 (- int (length fp))
      in if ip = [] \<and> fp = [] then None
         else (case r2 of
                 [] \<Rightarrow> Some mant
               | c # r \<Rightarrow>
                   if c = 0x65 \<or> c = 0x45
                   then (case signed_integer r of None \<Rightarrow> None | Some e \<Rightarrow> Some (mant * pow10 e))
                   else None))"

definition unsigned_literal :: "jsstring \<Rightarrow> jsnum" where
  "unsigned_literal s =
     (if s = lit ''Infinity'' then PosInf
      else (case unsigned_decimal s of None \<Rightarrow> NaN | Some q \<Rightarrow> round_binary64 q))"

definition radix_literal :: "jsstring \<Rightarrow> jsnum option" where
  "radix_literal s =
     (case s of
        z # x # ds \<Rightarrow>
          if z \<noteq> 0x30 then None
          else if x = 0x78 \<or> x = 0x58
            then Some (if all_digits 16 ds then round_binary64 (of_int (digits_val 16 ds)) else NaN)
          else if x = 0x6F \<or> x = 0x4F
            then Some (if all_digits 8 ds then round_binary64 (of_int (digits_val 8 ds)) else NaN)
          else if x = 0x62 \<or> x = 0x42
            then Some (if all_digits 2 ds then round_binary64 (of_int (digits_val 2 ds)) else NaN)
          else None
      | _ \<Rightarrow> None)"

definition Number :: "jsstring \<Rightarrow> jsnum" where
  "Number str =
     (let s = trim str in
      case s of
        [] \<Rightarrow> Finite 0
      | c # r \<Rightarrow>
          if c = 0x2B then unsigned_literal r
          else if c = 0x2D then js_neg (unsigned_literal r)
          else (case radix_literal s of Some n \<Rightarrow> n | None \<Rightarrow> unsigned_literal s))"


subsection \<open>Values and exceptions\<close>

text \<open>
  TypeScript types are erased at run time, and the data the program handles comes from
  \<open>JSON.parse\<close> and \<open>response.json()\<close>, both typed \<open>any\<close>. Values are therefore
  modelled as JavaScript has them. An object is the list of its own properties in
  enumeration order.
\<close>

datatype jsval =
    Undefined
  | Null
  | Bool bool
  | Num jsnum
  | Str jsstring
  | Arr "jsval list"
  | Obj "(jsstring \<times> jsval) list"

text \<open>
  A thrown value: a \<open>TypeError\<close> or \<open>SyntaxError\<close> raised by the language, or an error
  raised by a collaborator (process, network) or by \<open>new Error\<close>, kept as the text that
  \<open>String(error)\<close> gives.
\<close>

datatype exn = TypeError | SyntaxError | Failure jsstring

fun truthy :: "jsval \<Rightarrow> bool" where
  "truthy Undefined = False"
| "truthy Null = False"
| "truthy (Bool b) = b"
| "truthy (Num n) = (n \<noteq> NaN \<and> n \<noteq> Finite 0)"
| "truthy (Str s) = (s \<noteq> [])"
| "truthy (Arr xs) = True"
| "truthy (Obj kvs) = True"

section \<open>The outside world\<close>

text \<open>
  The program talks to four collaborators: the shell (\<open>execAsync\<close>), the registry
  (\<open>fetch\<close>), the terminal prompts and the terminal output. Every interaction is
  recorded, with its answer, in a trace. What a collaborator answers is given by an
  environment; an answer may depend on everything that happened before.
\<close>

datatype PackageManager = npm | pnpm | yarn | bun

text \<open>The type is a union of string literals: a manager is its name.\<close>

fun pm_string :: "PackageManager \<Rightarrow> jsstring" where
  "pm_string npm = lit ''npm''"
| "pm_string pnpm = lit ''pnpm''"
| "pm_string yarn = lit ''yarn''"
| "pm_string bun = lit ''bun''"

text \<open>
  \<open>version\<close> is declared a string; the npm listing stores whatever truthy JSON value
  the \<open>version\<close> property holds.
\<close>

record GlobalPackage =
  name :: jsstring
  version :: jsval
  pm :: PackageManager

record PackageWithLatest = GlobalPackage +
  latestVersion :: jsval
  hasUpdate :: bool

text \<open>A response of \<open>fetch\<close>: its \<open>ok\<close> flag and what \<open>response.json()\<close> settles to.\<close>

record response =
  ok :: bool
  json :: "exn + jsval"

datatype selection = SelectCancelled | Selected "PackageWithLatest list"

datatype confirmation = ConfirmCancelled | Confirmed bool

datatype colour = BgCyan | Black | Red | Cyan | Yellow | Green | Dim

datatype ui =
    ConsoleClear
  | Intro jsstring
  | SpinnerStart jsstring
  | SpinnerMessage jsstring
  | SpinnerUpdate jsstring
  | SpinnerStop jsstring
  | SpinnerSucceed jsstring
  | SpinnerFail jsstring
  | Outro jsstring
  | CancelMessage jsstring
  | LogError jsstring
  | ConsoleError jsstring exn

text \<open>
  A prompt is recorded with its message and the values of its options (labels and hints
  are display text computed from the values).
\<close>

datatype event =
    Exec jsstring "exn + jsstring"
  | Fetch jsstring "exn + response"
  | Multiselect jsstring "PackageWithLatest list" selection
  | Confirm jsstring confirmation
  | Ui ui

record env =
  exec_result :: "event list \<Rightarrow> jsstring \<Rightarrow> exn + jsstring"
  fetch_result :: "event list \<Rightarrow> jsstring \<Rightarrow> exn + response"
  multiselect_answer :: "event list \<Rightarrow> jsstring \<Rightarrow> PackageWithLatest list \<Rightarrow> selection"
  confirm_answer :: "event list \<Rightarrow> jsstring \<Rightarrow> confirmation"
  JSON_parse :: "jsstring \<Rightarrow> jsval option"
  paint :: "colour \<Rightarrow> jsstring \<Rightarrow> jsstring"

text \<open>
  \<open>exec_result\<close> is the standard output of a command that exits with 0, or the error
  the promise rejects with. \<open>JSON_parse\<close> is \<open>JSON.parse\<close> (\<open>None\<close>: a SyntaxError);
  \<open>paint\<close> is the colour library.
\<close>

definition execAsync :: "env \<Rightarrow> jsstring \<Rightarrow> event list \<Rightarrow> (exn + jsstring) \<times> event list" where
  "execAsync e command t = (exec_result e t command, t @ [Exec command (exec_result e t command)])"

definition fetch :: "env \<Rightarrow> jsstring \<Rightarrow> event list \<Rightarrow> (exn + response) \<times> event list" where
  "fetch e url t = (fetch_result e t url, t @ [Fetch url (fetch_result e t url)])"

definition multiselect ::
  "env \<Rightarrow> jsstring \<Rightarrow> PackageWithLatest list \<Rightarrow> event list \<Rightarrow> selection \<times> event list" where
  "multiselect e msg options t =
     (multiselect_answer e t msg options, t @ [Multiselect msg options (multiselect_answer e t msg options)])"

definition confirm :: "env \<Rightarrow> jsstring \<Rightarrow> event list \<Rightarrow> confirmation \<times> event list" where
  "confirm e msg t = (confirm_answer e t msg, t @ [Confirm msg (confirm_answer e t msg)])"

text \<open>The commands run so far, and those that failed.\<close>

fun execs :: "event list \<Rightarrow> jsstring list" where
  "execs [] = []"
| "execs (Exec c r # t) = c # execs t"
| "execs (ev # t) = execs t"

fun failed_execs :: "event list \<Rightarrow> jsstring list" where
  "failed_execs [] = []"
| "failed_execs (Exec c (Inl x) # t) = c # failed_execs t"
| "failed_execs (ev # t) = failed_execs t"

subsection \<open>Text helpers\<close>

fun js_join :: "jsstring \<Rightarrow> jsstring list \<Rightarrow> jsstring" where
  "js_join sep [] = []"
| "js_join sep [x] = x"
| "js_join sep (x # y # ys) = x @ sep @ js_join sep (y # ys)"

fun show_nat :: "nat \<Rightarrow> jsstring" where
  "show_nat n = (if n < 10 then [of_nat (48 + n)] else show_nat (n div 10) @ [of_nat (48 + n mod 10)])"

declare show_nat.simps [simp del]

text \<open>\<open>`${error}`\<close>: the text of a thrown value (the engine's message is left out).\<close>

fun error_string :: "exn \<Rightarrow> jsstring" where
  "error_string (Failure s) = s"
| "error_string TypeError = lit ''TypeError''"
| "error_string SyntaxError = lit ''SyntaxError''"

text \<open>\<open>count > 1 ? "s" : ""\<close>\<close>

definition plural :: "nat \<Rightarrow> jsstring" where
  "plural n = (if n > 1 then lit ''s'' else [])"

subsection \<open>Property access on parsed JSON\<close>

text \<open>
  \<open>v.key\<close> for the keys the program reads (\<open>type\<close>, \<open>data\<close>, \<open>body\<close>, \<open>dependencies\<close>,
  \<open>version\<close>), none of which a prototype defines: a TypeError on \<open>null\<close> and
  \<open>undefined\<close>, the own property of an object, \<open>undefined\<close> otherwise.
\<close>

fun get_prop :: "jsval \<Rightarrow> jsstring \<Rightarrow> exn + jsval" where
  "get_prop Undefined k = Inl TypeError"
| "get_prop Null k = Inl TypeError"
| "get_prop (Obj kvs) k = Inr (case map_of kvs k of Some v \<Rightarrow> v | None \<Rightarrow> Undefined)"
| "get_prop v k = Inr Undefined"

text \<open>\<open>Object.entries(v)\<close>: arrays and strings enumerate their indices.\<close>

fun object_entries :: "jsval \<Rightarrow> exn + (jsstring \<times> jsval) list" where
  "object_entries Undefined = Inl TypeError"
| "object_entries Null = Inl TypeError"
| "object_entries (Obj kvs) = Inr kvs"
| "object_entries (Arr xs) = Inr (zip (map show_nat [0..<length xs]) xs)"
| "object_entries (Str s) = Inr (zip (map show_nat [0..<length s]) (map (\<lambda>c. Str [c]) s))"
| "object_entries v = Inr []"

section \<open>Package manager utilities (\<open>src/utils/pm.ts\<close>)\<close>

definition commandExists :: "env \<Rightarrow> jsstring \<Rightarrow> event list \<Rightarrow> (exn + bool) \<times> event list" where
  "commandExists e command t =
     (case execAsync e (lit ''which '' @ command) t of
        (Inr out, t') \<Rightarrow> (Inr True, t')
      | (Inl x, t') \<Rightarrow> (Inr False, t'))"

fun detect_loop ::
  "env \<Rightarrow> PackageManager list \<Rightarrow> PackageManager list \<Rightarrow> event list
     \<Rightarrow> (exn + PackageManager list) \<times> event list" where
  "detect_loop e [] available t = (Inr available, t)"
| "detect_loop e (m # managers) available t =
     (case commandExists e (pm_string m) t of
        (Inl x, t') \<Rightarrow> (Inl x, t')
      | (Inr found, t') \<Rightarrow>
          detect_loop e managers (if found then available @ [m] else available) t')"

definition detectPackageManagers :: "env \<Rightarrow> event list \<Rightarrow> (exn + PackageManager list) \<times> event list" where
  "detectPackageManagers e t = detect_loop e [npm, pnpm, yarn, bun] [] t"

fun list_command :: "PackageManager \<Rightarrow> jsstring" where
  "list_command npm = lit ''npm list -g --depth=0 --json''"
| "list_command pnpm = lit ''pnpm list -g --depth 0''"
| "list_command yarn = lit ''yarn global list --json''"
| "list_command bun = lit ''bun pm ls -g''"

text \<open>\<open>stdout.split("\n").filter((line) => line.trim())\<close>\<close>

definition nonblank_lines :: "jsstring \<Rightarrow> jsstring list" where
  "nonblank_lines stdout = filter (\<lambda>line. trim line \<noteq> []) (str_split 0x0A stdout)"

text \<open>\<open>line.replace(/^[\<dots>\s]+/, "").trim()\<close>, the class holding the four box-drawing glyphs.\<close>

definition is_tree_char :: "jschar \<Rightarrow> bool" where
  "is_tree_char c = (c = 0x2502 \<or> c = 0x251C \<or> c = 0x2514 \<or> c = 0x2500 \<or> is_space c)"

definition clean_line :: "jsstring \<Rightarrow> jsstring" where
  "clean_line line = trim (dropWhile is_tree_char line)"

definition no_line_terminator :: "jsstring \<Rightarrow> bool" where
  "no_line_terminator s = list_all (\<lambda>c. \<not> is_line_terminator c) s"

text \<open>
  \<open>/^(.+?)@(.+)$/\<close>: the first group grows one code unit at a time (it is lazy) until an
  \<open>@\<close> follows with a non-empty rest free of line terminators.
\<close>

fun at_scan :: "jsstring \<Rightarrow> jsstring \<Rightarrow> (jsstring \<times> jsstring) option" where
  "at_scan g1 [] = None"
| "at_scan g1 (c # r) =
     (if c = 0x40 \<and> r \<noteq> [] \<and> no_line_terminator r then Some (g1, r)
      else if is_line_terminator c then None
      else at_scan (g1 @ [c]) r)"

definition match_name_at_version :: "jsstring \<Rightarrow> (jsstring \<times> jsstring) option" where
  "match_name_at_version s =
     (case s of [] \<Rightarrow> None | c # r \<Rightarrow> if is_line_terminator c then None else at_scan [c] r)"

text \<open>
  \<open>/^(.+?)\s+(.+)$/\<close>: after the lazy first group, \<open>\s+\<close> takes the whole run of white
  space and gives back one unit at a time until the rest is non-empty and free of line
  terminators.
\<close>

fun after_spaces :: "nat \<Rightarrow> jsstring \<Rightarrow> jsstring option" where
  "after_spaces 0 s = None"
| "after_spaces (Suc j) s =
     (if drop (Suc j) s \<noteq> [] \<and> no_line_terminator (drop (Suc j) s) then Some (drop (Suc j) s)
      else after_spaces j s)"

fun space_scan :: "jsstring \<Rightarrow> jsstring \<Rightarrow> (jsstring \<times> jsstring) option" where
  "space_scan g1 [] = None"
| "space_scan g1 (c # r) =
     (case after_spaces (length (takeWhile is_space (c # r))) (c # r) of
        Some g2 \<Rightarrow> Some (g1, g2)
      | None \<Rightarrow> if is_line_terminator c then None else space_scan (g1 @ [c]) r)"

definition match_name_space_version :: "jsstring \<Rightarrow> (jsstring \<times> jsstring) option" where
  "match_name_space_version s =
     (case s of [] \<Rightarrow> None | c # r \<Rightarrow> if is_line_terminator c then None else space_scan [c] r)"

text \<open>
  \<open>/(.+)@(.+)/\<close>, not anchored: at the leftmost start that works, the first group is the
  longest stretch free of line terminators that leaves an \<open>@\<close> and at least one more unit
  of the stretch; the second group is the rest of the stretch.
\<close>

fun greedy_at :: "nat \<Rightarrow> jsstring \<Rightarrow> (jsstring \<times> jsstring) option" where
  "greedy_at 0 stretch = None"
| "greedy_at (Suc n) stretch =
     (if Suc (Suc n) < length stretch \<and> stretch ! Suc n = 0x40
      then Some (take (Suc n) stretch, drop (Suc (Suc n)) stretch)
      else greedy_at n stretch)"

fun match_at_anywhere :: "jsstring \<Rightarrow> (jsstring \<times> jsstring) option" where
  "match_at_anywhere [] = None"
| "match_at_anywhere (c # r) =
     (let stretch = takeWhile (\<lambda>c. \<not> is_line_terminator c) (c # r) in
      case greedy_at (length stretch) stretch of
        Some m \<Rightarrow> Some m
      | None \<Rightarrow> match_at_anywhere r)"

text \<open>The bun and pnpm listings: one package per line that matches.\<close>

fun parse_lines ::
  "(jsstring \<Rightarrow> (jsstring \<times> jsstring) option) \<Rightarrow> PackageManager \<Rightarrow> jsstring list \<Rightarrow> GlobalPackage list" where
  "parse_lines match m [] = []"
| "parse_lines match m (line # lines) =
     (case match (clean_line line) of
        Some (g1, g2) \<Rightarrow>
          (if g1 \<noteq> [] \<and> g2 \<noteq> []
           then \<lparr>name = trim g1, version = Str (trim g2), pm = m\<rparr> # parse_lines match m lines
           else parse_lines match m lines)
      | None \<Rightarrow> parse_lines match m lines)"

text \<open>
  The yarn listing: one JSON object per line. The inner \<open>try\<close> covers a whole line, so an
  exception (a line that is not JSON, a body that cannot be iterated, an item that is not
  a string) ends the line and keeps what the line had pushed.
\<close>

fun yarn_items :: "PackageManager \<Rightarrow> jsval list \<Rightarrow> GlobalPackage list" where
  "yarn_items m [] = []"
| "yarn_items m (Str s # items) =
     (case match_at_anywhere s of
        Some (g1, g2) \<Rightarrow> \<lparr>name = g1, version = Str g2, pm = m\<rparr> # yarn_items m items
      | None \<Rightarrow> yarn_items m items)"
| "yarn_items m (item # items) = []"

text \<open>
  \<open>for (const item of body)\<close>: an array gives its elements; a string gives strings of one
  code point, which the pattern (three units at least) never matches; any other truthy
  value is not iterable.
\<close>

fun yarn_body :: "PackageManager \<Rightarrow> jsval \<Rightarrow> GlobalPackage list" where
  "yarn_body m (Arr items) = yarn_items m items"
| "yarn_body m v = []"

definition yarn_line :: "env \<Rightarrow> PackageManager \<Rightarrow> jsstring \<Rightarrow> GlobalPackage list" where
  "yarn_line e m line =
     (case JSON_parse e line of
        None \<Rightarrow> []
      | Some data \<Rightarrow>
          (case get_prop data (lit ''type'') of
             Inl x \<Rightarrow> []
           | Inr ty \<Rightarrow>
               if ty = Str (lit ''list'')
               then (case get_prop data (lit ''data'') of
                       Inl x \<Rightarrow> []
                     | Inr d \<Rightarrow>
                         (case (if d = Undefined \<or> d = Null then Inr Undefined
                                else get_prop d (lit ''body'')) of
                            Inl x \<Rightarrow> []
                          | Inr body \<Rightarrow> if truthy body then yarn_body m body else []))
               else []))"

text \<open>The npm listing: the entries of \<open>data.dependencies\<close> that have a truthy version.\<close>

fun npm_entries :: "PackageManager \<Rightarrow> (jsstring \<times> jsval) list \<Rightarrow> exn + GlobalPackage list" where
  "npm_entries m [] = Inr []"
| "npm_entries m ((key, info) # entries) =
     (case get_prop info (lit ''version'') of
        Inl x \<Rightarrow> Inl x
      | Inr v \<Rightarrow>
          (case npm_entries m entries of
             Inl x \<Rightarrow> Inl x
           | Inr packages \<Rightarrow>
               Inr (if truthy v then \<lparr>name = key, version = v, pm = m\<rparr> # packages else packages)))"

definition npm_packages :: "env \<Rightarrow> PackageManager \<Rightarrow> jsstring \<Rightarrow> exn + GlobalPackage list" where
  "npm_packages e m stdout =
     (case JSON_parse e stdout of
        None \<Rightarrow> Inl SyntaxError
      | Some data \<Rightarrow>
          (case get_prop data (lit ''dependencies'') of
             Inl x \<Rightarrow> Inl x
           | Inr deps \<Rightarrow>
               if truthy deps
               then (case object_entries deps of Inl x \<Rightarrow> Inl x | Inr entries \<Rightarrow> npm_entries m entries)
               else Inr []))"

text \<open>The body of the outer \<open>try\<close>, after the command has answered.\<close>

fun parse_listing :: "env \<Rightarrow> PackageManager \<Rightarrow> jsstring \<Rightarrow> exn + GlobalPackage list" where
  "parse_listing e bun stdout = Inr (parse_lines match_name_at_version bun (nonblank_lines stdout))"
| "parse_listing e pnpm stdout = Inr (parse_lines match_name_space_version pnpm (nonblank_lines stdout))"
| "parse_listing e yarn stdout = Inr (concat (map (yarn_line e yarn) (nonblank_lines stdout)))"
| "parse_listing e npm stdout = npm_packages e npm stdout"

definition getGlobalPackages ::
  "env \<Rightarrow> PackageManager \<Rightarrow> event list \<Rightarrow> (exn + GlobalPackage list) \<times> event list" where
  "getGlobalPackages e m t =
     (case execAsync e (list_command m) t of
        (Inl x, t') \<Rightarrow> (Inr [], t')
      | (Inr stdout, t') \<Rightarrow>
          (case parse_listing e m stdout of
             Inl x \<Rightarrow> (Inr [], t')
           | Inr packages \<Rightarrow> (Inr packages, t')))"

fun upgrade_command :: "PackageManager \<Rightarrow> jsstring \<Rightarrow> jsstring" where
  "upgrade_command npm packages = lit ''npm install -g '' @ packages"
| "upgrade_command pnpm packages = lit ''pnpm add -g '' @ packages"
| "upgrade_command yarn packages = lit ''yarn global add '' @ packages"
| "upgrade_command bun packages = lit ''bun add -g '' @ packages"

definition upgradePackages ::
  "env \<Rightarrow> PackageManager \<Rightarrow> jsstring list \<Rightarrow> event list \<Rightarrow> (exn + unit) \<times> event list" where
  "upgradePackages e m packageNames t =
     (if length packageNames = 0 then (Inr (), t)
      else
        (let packages = js_join (lit '' '') (map (\<lambda>n. n @ lit ''@latest'') packageNames) in
         case execAsync e (upgrade_command m packages) t of
           (Inl x, t') \<Rightarrow> (Inl x, t')
         | (Inr out, t') \<Rightarrow> (Inr (), t')))"

section \<open>Registry utilities (\<open>src/utils/registry.ts\<close>)\<close>

definition getLatestVersion :: "env \<Rightarrow> jsstring \<Rightarrow> event list \<Rightarrow> (exn + jsval) \<times> event list" where
  "getLatestVersion e packageName t =
     (case fetch e (lit ''https://registry.npmjs.org/'' @ packageName @ lit ''/latest'') t of
        (Inl x, t') \<Rightarrow> (Inr Null, t')
      | (Inr response, t') \<Rightarrow>
          if \<not> ok response then (Inr Null, t')
          else
            (case json response of
               Inl x \<Rightarrow> (Inr Null, t')
             | Inr data \<Rightarrow>
                 (case get_prop data (lit ''version'') of
                    Inl x \<Rightarrow> (Inr Null, t')
                  | Inr v \<Rightarrow> (Inr (if truthy v then v else Null), t'))))"

subsection \<open>Version comparison\<close>


text \<open>
  \<open>v.replace(/^[^0-9]+/, "")\<close>: on a string, the leading code units that are not digits
  are dropped; any other value that passed the truthiness check has no \<open>replace\<close> method,
  and the call raises a TypeError.
\<close>

fun replace_leading_nondigits :: "jsval \<Rightarrow> exn + jsstring" where
  "replace_leading_nondigits (Str s) = Inr (dropWhile (\<lambda>c. \<not> is_digit c) s)"
| "replace_leading_nondigits v = Inl TypeError"

text \<open>\<open>parts[i] || 0\<close>: an index past the end reads \<open>undefined\<close>; NaN and 0 are falsy.\<close>

definition part_or_zero :: "jsnum list \<Rightarrow> nat \<Rightarrow> jsnum" where
  "part_or_zero parts i =
     (if i < length parts
      then (if parts ! i = NaN \<or> parts ! i = Finite 0 then Finite 0 else parts ! i)
      else Finite 0)"

function compareLoop :: "jsnum list \<Rightarrow> jsnum list \<Rightarrow> nat \<Rightarrow> bool" where
  "compareLoop currentParts latestParts i =
     (if i < max (length currentParts) (length latestParts)
      then
        (let curr = part_or_zero currentParts i;
             lat = part_or_zero latestParts i
         in if js_gt lat curr then True
            else if js_lt lat curr then False
            else compareLoop currentParts latestParts (i + 1))
      else False)"
  by pat_completeness auto
termination
  by (relation "measure (\<lambda>(c, l, i). max (length c) (length l) - i)") auto

declare compareLoop.simps [simp del]

definition compareVersions :: "jsval \<Rightarrow> jsval \<Rightarrow> exn + bool" where
  "compareVersions current latest =
     (if \<not> truthy current \<or> \<not> truthy latest then Inr False
      else
        (case replace_leading_nondigits current of
           Inl e \<Rightarrow> Inl e
         | Inr cleanCurrent \<Rightarrow>
             (case replace_leading_nondigits latest of
                Inl e \<Rightarrow> Inl e
              | Inr cleanLatest \<Rightarrow>
                  Inr (compareLoop (map Number (str_split 0x2E cleanCurrent))
                                   (map Number (str_split 0x2E cleanLatest)) 0))))"

section \<open>The orchestrator\<close>

text \<open>How a run ends: it returns, it rejects with a thrown value, or \<open>process.exit\<close> is called.\<close>

datatype 'a outcome = Return 'a | Throw exn | Exit nat

subsection \<open>Steps shared by \<open>src/cli.ts\<close> and \<open>src/index.ts\<close>\<close>

text \<open>Enumerating: \<open>for (const pm of packageManagers) allPackages.push(...await getGlobalPackages(pm))\<close>\<close>

fun fetch_packages ::
  "env \<Rightarrow> PackageManager list \<Rightarrow> GlobalPackage list \<Rightarrow> event list
     \<Rightarrow> (exn + GlobalPackage list) \<times> event list" where
  "fetch_packages e [] allPackages t = (Inr allPackages, t)"
| "fetch_packages e (m # managers) allPackages t =
     (case getGlobalPackages e m t of
        (Inl x, t') \<Rightarrow> (Inl x, t')
      | (Inr packages, t') \<Rightarrow> fetch_packages e managers (allPackages @ packages) t')"

text \<open>
  Checking: a package whose latest version is not resolved is dropped; a version that is
  not a string makes \<open>compareVersions\<close> throw, which nothing catches.
\<close>

fun check_updates ::
  "env \<Rightarrow> GlobalPackage list \<Rightarrow> PackageWithLatest list \<Rightarrow> event list
     \<Rightarrow> (exn + PackageWithLatest list) \<times> event list" where
  "check_updates e [] packagesWithLatest t = (Inr packagesWithLatest, t)"
| "check_updates e (pkg # pkgs) packagesWithLatest t =
     (case getLatestVersion e (name pkg) t of
        (Inl x, t') \<Rightarrow> (Inl x, t')
      | (Inr latest, t') \<Rightarrow>
          if truthy latest
          then (case compareVersions (version pkg) latest of
                  Inl x \<Rightarrow> (Inl x, t')
                | Inr update \<Rightarrow>
                    check_updates e pkgs
                      (packagesWithLatest @
                         [\<lparr>name = name pkg, version = version pkg, pm = pm pkg,
                           latestVersion = latest, hasUpdate = update\<rparr>]) t')
          else check_updates e pkgs packagesWithLatest t')"

text \<open>
  Grouping by manager. A \<open>Map\<close> keeps its keys in insertion order: it is a list of pairs
  with distinct keys, a new key going to the end.
\<close>

definition group_step ::
  "(PackageManager \<times> PackageWithLatest list) list \<Rightarrow> PackageWithLatest
     \<Rightarrow> (PackageManager \<times> PackageWithLatest list) list" where
  "group_step packagesByPM pkg =
     (let byPM = (if map_of packagesByPM (pm pkg) = None
                  then AList.update (pm pkg) [] packagesByPM else packagesByPM)
      in case map_of byPM (pm pkg) of
           None \<Rightarrow> byPM
         | Some packages \<Rightarrow> AList.update (pm pkg) (packages @ [pkg]) byPM)"

definition groupByPM :: "PackageWithLatest list \<Rightarrow> (PackageManager \<times> PackageWithLatest list) list" where
  "groupByPM packagesToUpgrade = foldl group_step [] packagesToUpgrade"

definition progress_message ::
  "nat \<Rightarrow> nat \<Rightarrow> PackageWithLatest list \<Rightarrow> PackageManager \<Rightarrow> jsstring" where
  "progress_message processedCount totalCount packages m =
     lit ''['' @ show_nat (processedCount + 1) @ lit ''-''
       @ show_nat (processedCount + length packages) @ lit ''/'' @ show_nat totalCount
       @ lit ''] Upgrading '' @ js_join (lit '', '') (map name packages)
       @ lit '' via '' @ pm_string m"

definition found_managers_message :: "env \<Rightarrow> PackageManager list \<Rightarrow> jsstring" where
  "found_managers_message e packageManagers =
     lit ''Found '' @ paint e Cyan (show_nat (length packageManagers)) @ lit '' package manager''
       @ plural (length packageManagers) @ lit '': ''
       @ paint e Cyan (js_join (lit '', '') (map pm_string packageManagers))"

definition found_packages_message :: "env \<Rightarrow> nat \<Rightarrow> jsstring" where
  "found_packages_message e n =
     lit ''Found '' @ paint e Cyan (show_nat n) @ lit '' global package'' @ plural n"

definition found_updates_message :: "env \<Rightarrow> nat \<Rightarrow> jsstring" where
  "found_updates_message e n =
     lit ''Found '' @ paint e Cyan (show_nat n) @ lit '' package'' @ plural n @ lit '' with updates''"

definition confirm_message :: "nat \<Rightarrow> jsstring" where
  "confirm_message n = lit ''Upgrade '' @ show_nat n @ lit '' package'' @ plural n @ lit ''?''"

subsection \<open>The command-line interface (\<open>src/cli.ts\<close>)\<close>

text \<open>The loop of the Upgrading state; the result is \<open>processedCount\<close>.\<close>

fun run_upgrade_loop ::
  "env \<Rightarrow> nat \<Rightarrow> (PackageManager \<times> PackageWithLatest list) list \<Rightarrow> nat \<Rightarrow> event list
     \<Rightarrow> nat \<times> event list" where
  "run_upgrade_loop e totalCount [] processedCount t = (processedCount, t)"
| "run_upgrade_loop e totalCount ((m, packages) # groups) processedCount t =
     (case upgradePackages e m (map name packages)
             (t @ [Ui (SpinnerMessage (progress_message processedCount totalCount packages m))]) of
        (Inr u, t') \<Rightarrow>
          run_upgrade_loop e totalCount groups (processedCount + length packages) t'
      | (Inl error, t') \<Rightarrow>
          run_upgrade_loop e totalCount groups processedCount
            (t' @ [Ui (SpinnerStop (lit ''Failed to upgrade packages via '' @ pm_string m)),
                   Ui (LogError (pm_string m @ lit '': '' @ error_string error))]))"

definition run_upgrading :: "env \<Rightarrow> PackageWithLatest list \<Rightarrow> event list \<Rightarrow> unit outcome \<times> event list" where
  "run_upgrading e packagesToUpgrade t =
     (case run_upgrade_loop e (length packagesToUpgrade) (groupByPM packagesToUpgrade) 0
             (t @ [Ui (SpinnerStart (lit ''Upgrading packages''))]) of
        (processedCount, t') \<Rightarrow>
          (Return (),
           t' @ [Ui (SpinnerStop (lit ''All packages upgraded'')),
                 Ui (Outro (paint e Green (lit ''Successfully upgraded all selected packages!'')))]))"

definition run_selecting :: "env \<Rightarrow> PackageWithLatest list \<Rightarrow> event list \<Rightarrow> unit outcome \<times> event list" where
  "run_selecting e updatablePackages t =
     (case multiselect e (lit ''Select packages to upgrade:'') updatablePackages t of
        (SelectCancelled, t1) \<Rightarrow> (Exit 0, t1 @ [Ui (CancelMessage (lit ''Operation cancelled''))])
      | (Selected selected, t1) \<Rightarrow>
          if length selected = 0
          then (Exit 0, t1 @ [Ui (Outro (paint e Yellow (lit ''No packages selected'')))])
          else
            (case confirm e (confirm_message (length selected)) t1 of
               (ConfirmCancelled, t2) \<Rightarrow>
                 (Exit 0, t2 @ [Ui (CancelMessage (lit ''Operation cancelled''))])
             | (Confirmed yes, t2) \<Rightarrow>
                 if \<not> yes then (Exit 0, t2 @ [Ui (CancelMessage (lit ''Operation cancelled''))])
                 else run_upgrading e selected t2))"

definition run_checking :: "env \<Rightarrow> GlobalPackage list \<Rightarrow> event list \<Rightarrow> unit outcome \<times> event list" where
  "run_checking e allPackages t =
     (case check_updates e allPackages [] t of
        (Inl x, t1) \<Rightarrow> (Throw x, t1)
      | (Inr packagesWithLatest, t1) \<Rightarrow>
          if length (filter hasUpdate packagesWithLatest) = 0
          then (Exit 0, t1 @ [Ui (SpinnerStop (lit ''Check complete'')),
                              Ui (Outro (paint e Green (lit ''All packages are up to date!'')))])
          else run_selecting e (filter hasUpdate packagesWithLatest)
                 (t1 @ [Ui (SpinnerStop
                         (found_updates_message e (length (filter hasUpdate packagesWithLatest))))]))"

definition run_enumerating :: "env \<Rightarrow> PackageManager list \<Rightarrow> event list \<Rightarrow> unit outcome \<times> event list" where
  "run_enumerating e packageManagers t =
     (case fetch_packages e packageManagers [] t of
        (Inl x, t1) \<Rightarrow> (Throw x, t1)
      | (Inr allPackages, t1) \<Rightarrow>
          if length allPackages = 0
          then (Exit 0, t1 @ [Ui (SpinnerStop (lit ''No global packages found'')),
                              Ui (Outro (paint e Yellow (lit ''No global packages found to update'')))])
          else run_checking e allPackages
                 (t1 @ [Ui (SpinnerStop (found_packages_message e (length allPackages))),
                        Ui (SpinnerStart (lit ''Checking for updates''))]))"

definition run :: "env \<Rightarrow> event list \<Rightarrow> unit outcome \<times> event list" where
  "run e t =
     (case detectPackageManagers e
             (t @ [Ui ConsoleClear,
                   Ui (Intro (paint e BgCyan (paint e Black (lit '' @xystack/up '')))),
                   Ui (SpinnerStart (lit ''Detecting package managers''))]) of
        (Inl x, t1) \<Rightarrow> (Throw x, t1)
      | (Inr packageManagers, t1) \<Rightarrow>
          if length packageManagers = 0
          then (Exit 1,
                t1 @ [Ui (SpinnerStop (lit ''No package managers found'')),
                      Ui (Outro (paint e Red
                        (lit ''No package managers (npm, pnpm, yarn, bun) found on your system'')))])
          else run_enumerating e packageManagers
                 (t1 @ [Ui (SpinnerStop (found_managers_message e packageManagers)),
                        Ui (SpinnerStart (lit ''Fetching global packages''))]))"


subsection \<open>The upgrade tool (\<open>src/index.ts\<close>)\<close>

text \<open>
  What \<open>execute\<close> returns; the early returns leave the counts and the list out. The
  dynamic import of the prompt library in \<open>promptPackageSelection\<close> is taken to succeed.
\<close>

record tool_result =
  success :: bool
  upgraded :: "nat option"
  total :: "nat option"
  failed :: "jsstring list option"
  message :: jsstring

definition promptPackageSelection ::
  "env \<Rightarrow> PackageWithLatest list \<Rightarrow> event list \<Rightarrow> (exn + PackageWithLatest list) \<times> event list" where
  "promptPackageSelection e packages t =
     (case multiselect e (lit ''Select packages to upgrade:'') packages t of
        (SelectCancelled, t1) \<Rightarrow> (Inr [], t1)
      | (Selected selected, t1) \<Rightarrow>
          if length selected = 0 then (Inr [], t1)
          else
            (case confirm e (confirm_message (length selected)) t1 of
               (ConfirmCancelled, t2) \<Rightarrow> (Inr [], t2)
             | (Confirmed yes, t2) \<Rightarrow> if \<not> yes then (Inr [], t2) else (Inr selected, t2)))"

text \<open>The loop of the Upgrading state; the result is \<open>processedCount\<close> and \<open>failed\<close>.\<close>

fun execute_upgrade_loop ::
  "env \<Rightarrow> nat \<Rightarrow> (PackageManager \<times> PackageWithLatest list) list \<Rightarrow> nat \<Rightarrow> jsstring list
     \<Rightarrow> event list \<Rightarrow> (nat \<times> jsstring list) \<times> event list" where
  "execute_upgrade_loop e totalCount [] processedCount failures t = ((processedCount, failures), t)"
| "execute_upgrade_loop e totalCount ((m, packages) # groups) processedCount failures t =
     (case upgradePackages e m (map name packages)
             (t @ [Ui (SpinnerUpdate (progress_message processedCount totalCount packages m))]) of
        (Inr u, t') \<Rightarrow>
          execute_upgrade_loop e totalCount groups (processedCount + length packages) failures t'
      | (Inl error, t') \<Rightarrow>
          execute_upgrade_loop e totalCount groups processedCount
            (failures @ [pm_string m @ lit '': '' @ error_string error])
            (t' @ [Ui (SpinnerFail (lit ''Failed to upgrade packages via '' @ pm_string m))]))"

definition summary_message :: "nat \<Rightarrow> nat \<Rightarrow> jsstring list \<Rightarrow> jsstring" where
  "summary_message processedCount totalCount failures =
     (if length failures = 0
      then lit ''Successfully upgraded '' @ show_nat processedCount @ lit '' package''
             @ plural processedCount @ lit ''!''
      else lit ''Upgraded '' @ show_nat processedCount @ lit ''/'' @ show_nat totalCount
             @ lit '' packages. '' @ show_nat (length failures) @ lit '' failed.'')"

definition execute_upgrading ::
  "env \<Rightarrow> PackageWithLatest list \<Rightarrow> event list \<Rightarrow> (exn + tool_result) \<times> event list" where
  "execute_upgrading e packagesToUpgrade t =
     (case execute_upgrade_loop e (length packagesToUpgrade) (groupByPM packagesToUpgrade) 0 []
             (t @ [Ui (SpinnerStart (lit ''Upgrading packages''))]) of
        ((processedCount, failures), t') \<Rightarrow>
          (Inr \<lparr>success = (length failures = 0),
                upgraded = Some processedCount,
                total = Some (length packagesToUpgrade),
                failed = Some failures,
                message = summary_message processedCount (length packagesToUpgrade) failures\<rparr>,
           t' @ [Ui (if processedCount = length packagesToUpgrade
                     then SpinnerSucceed (lit ''All packages upgraded'')
                     else SpinnerFail (lit ''Upgrade completed with errors''))]))"

text \<open>\<open>all\<close> is the optional flag of the tool: absent, false or true.\<close>

definition execute_selecting ::
  "env \<Rightarrow> bool option \<Rightarrow> PackageWithLatest list \<Rightarrow> event list \<Rightarrow> (exn + tool_result) \<times> event list" where
  "execute_selecting e all updatablePackages t =
     (case (if all = Some True then (Inr updatablePackages, t)
            else promptPackageSelection e updatablePackages t) of
        (Inl x, t1) \<Rightarrow> (Inl x, t1)
      | (Inr packagesToUpgrade, t1) \<Rightarrow>
          if length packagesToUpgrade = 0
          then (Inr \<lparr>success = False, upgraded = None, total = None, failed = None,
                     message = lit ''No packages selected for upgrade''\<rparr>, t1)
          else execute_upgrading e packagesToUpgrade t1)"

definition execute_checking ::
  "env \<Rightarrow> bool option \<Rightarrow> GlobalPackage list \<Rightarrow> event list \<Rightarrow> (exn + tool_result) \<times> event list" where
  "execute_checking e all allPackages t =
     (case check_updates e allPackages [] t of
        (Inl x, t1) \<Rightarrow> (Inl x, t1)
      | (Inr packagesWithLatest, t1) \<Rightarrow>
          if length (filter hasUpdate packagesWithLatest) = 0
          then (Inr \<lparr>success = True, upgraded = None, total = None, failed = None,
                     message = lit ''All packages are up to date!''\<rparr>,
                t1 @ [Ui (SpinnerSucceed (lit ''All packages are up to date!''))])
          else execute_selecting e all (filter hasUpdate packagesWithLatest)
                 (t1 @ [Ui (SpinnerSucceed
                         (found_updates_message e (length (filter hasUpdate packagesWithLatest))))]))"

definition execute_enumerating ::
  "env \<Rightarrow> bool option \<Rightarrow> PackageManager list \<Rightarrow> event list \<Rightarrow> (exn + tool_result) \<times> event list" where
  "execute_enumerating e all packageManagers t =
     (case fetch_packages e packageManagers [] t of
        (Inl x, t1) \<Rightarrow> (Inl x, t1)
      | (Inr allPackages, t1) \<Rightarrow>
          if length allPackages = 0
          then (Inr \<lparr>success = True, upgraded = None, total = None, failed = None,
                     message = lit ''No global packages found to update''\<rparr>,
                t1 @ [Ui (SpinnerSucceed (lit ''No global packages found''))])
          else execute_checking e all allPackages
                 (t1 @ [Ui (SpinnerSucceed (found_packages_message e (length allPackages))),
                        Ui (SpinnerStart (lit ''Checking for updates''))]))"

definition execute :: "env \<Rightarrow> bool option \<Rightarrow> event list \<Rightarrow> (exn + tool_result) \<times> event list" where
  "execute e all t =
     (case detectPackageManagers e (t @ [Ui (SpinnerStart (lit ''Detecting package managers''))]) of
        (Inl x, t1) \<Rightarrow> (Inl x, t1)
      | (Inr packageManagers, t1) \<Rightarrow>
          if length packageManagers = 0
          then (Inl (Failure
                  (lit ''Error: No package managers (npm, pnpm, yarn, bun) found on your system'')),
                t1 @ [Ui (SpinnerFail (lit ''No package managers found''))])
          else execute_enumerating e all packageManagers
                 (t1 @ [Ui (SpinnerSucceed (found_managers_message e packageManagers)),
                        Ui (SpinnerStart (lit ''Fetching global packages''))]))"

section \<open>The rules of the specification, in its words\<close>

subsection \<open>Version comparison\<close>

text \<open>
  The numeric components of a version string: the leading non-digit prefix is stripped,
  the rest is split on the dot, and each part is converted by \<open>Number\<close>.
\<close>

definition numeric_components :: "jsstring \<Rightarrow> jsnum list" where
  "numeric_components v = map Number (str_split 0x2E (dropWhile (\<lambda>c. \<not> is_digit c) v))"

text \<open>A part that is not a number is read as 0.\<close>

fun nan_as_zero :: "jsnum \<Rightarrow> jsnum" where
  "nan_as_zero NaN = Finite 0"
| "nan_as_zero n = n"

text \<open>A missing component is 0: a sequence is filled up with zeros to \<open>n\<close> components.\<close>

definition zero_padded :: "nat \<Rightarrow> jsnum list \<Rightarrow> jsnum list" where
  "zero_padded n cs = cs @ replicate (n - length cs) (Finite 0)"

text \<open>
  The positions compared, left to right up to the longer sequence: at each one the
  component of the current version and that of the latest.
\<close>

definition compared_components :: "jsnum list \<Rightarrow> jsnum list \<Rightarrow> (jsnum \<times> jsnum) list" where
  "compared_components cs ls =
     zip (zero_padded (max (length cs) (length ls)) (map nan_as_zero cs))
         (zero_padded (max (length cs) (length ls)) (map nan_as_zero ls))"

text \<open>The order of the numbers (none of the compared components is NaN).\<close>

fun exceeds :: "jsnum \<Rightarrow> jsnum \<Rightarrow> bool" where
  "exceeds (Finite x) (Finite y) = (y < x)"
| "exceeds PosInf (Finite y) = True"
| "exceeds PosInf NegInf = True"
| "exceeds (Finite x) NegInf = True"
| "exceeds a b = False"

text \<open>
  True iff at the first position where the components differ the latest one exceeds the
  current one; false when all compared positions are equal.
\<close>

definition newer_at_first_difference :: "jsnum list \<Rightarrow> jsnum list \<Rightarrow> bool" where
  "newer_at_first_difference cs ls =
     (case find (\<lambda>(c, l). c \<noteq> l) (compared_components cs ls) of
        None \<Rightarrow> False
      | Some (c, l) \<Rightarrow> exceeds l c)"


subsection \<open>Traces\<close>

text \<open>The user cancelled a prompt, selected nothing, or declined the confirmation.\<close>

fun is_abort :: "event \<Rightarrow> bool" where
  "is_abort (Multiselect msg options SelectCancelled) = True"
| "is_abort (Multiselect msg options (Selected selected)) = (selected = [])"
| "is_abort (Confirm msg ConfirmCancelled) = True"
| "is_abort (Confirm msg (Confirmed yes)) = (\<not> yes)"
| "is_abort ev = False"

definition user_aborted :: "event list \<Rightarrow> bool" where
  "user_aborted t = list_ex is_abort t"

text \<open>An upgrade command: one that starts as the commands of \<open>upgradePackages\<close> do.\<close>

definition is_upgrade_command :: "jsstring \<Rightarrow> bool" where
  "is_upgrade_command c = list_ex (\<lambda>m. prefix (upgrade_command m []) c) [npm, pnpm, yarn, bun]"

definition upgrade_commands :: "event list \<Rightarrow> jsstring list" where
  "upgrade_commands t = filter is_upgrade_command (execs t)"

text \<open>The one batched command of a group: every name of the group with the \<open>latest\<close> tag.\<close>

definition group_command :: "PackageManager \<times> PackageWithLatest list \<Rightarrow> jsstring" where
  "group_command g =
     upgrade_command (fst g) (js_join (lit '' '') (map (\<lambda>n. n @ lit ''@latest'') (map name (snd g))))"

text \<open>The answers of the commands run, in order, and the failure lines they call for.\<close>

fun exec_results :: "event list \<Rightarrow> (exn + jsstring) list" where
  "exec_results [] = []"
| "exec_results (Exec c r # t) = r # exec_results t"
| "exec_results (ev # t) = exec_results t"

fun failure_lines ::
  "(PackageManager \<times> PackageWithLatest list) list \<Rightarrow> (exn + jsstring) list \<Rightarrow> jsstring list" where
  "failure_lines (g # groups) (Inl x # rs) =
     (pm_string (fst g) @ lit '': '' @ error_string x) # failure_lines groups rs"
| "failure_lines (g # groups) (Inr out # rs) = failure_lines groups rs"
| "failure_lines groups rs = []"

text \<open>The packages counted as upgraded: those of the groups whose command succeeded.\<close>

fun upgraded_count :: "(PackageManager \<times> PackageWithLatest list) list \<Rightarrow> (exn + jsstring) list \<Rightarrow> nat" where
  "upgraded_count (g # groups) (Inr out # rs) = length (snd g) + upgraded_count groups rs"
| "upgraded_count (g # groups) (Inl x # rs) = upgraded_count groups rs"
| "upgraded_count groups rs = 0"

text \<open>What \<open>execute\<close> returns when nothing is selected.\<close>

definition no_selection_result :: tool_result where
  "no_selection_result =
     \<lparr>success = False, upgraded = None, total = None, failed = None,
      message = lit ''No packages selected for upgrade''\<rparr>"

text \<open>A response body with no version field.\<close>

fun lacks_version :: "jsval \<Rightarrow> bool" where
  "lacks_version (Obj kvs) = (map_of kvs (lit ''version'') = None)"
| "lacks_version v = True"

subsection \<open>A sample environment\<close>

text \<open>
  Only pnpm is installed; it lists \<open>foo\<close> at 1.0.0; the registry answers 1.1.0; the user
  selects what is offered and confirms; every other command, the upgrade too, fails. The
  listing of pnpm is plain text, so \<open>JSON.parse\<close> is never called here.
\<close>

definition sample_env :: env where
  "sample_env =
     \<lparr>exec_result =
        (\<lambda>t c. if c = lit ''which pnpm'' then Inr (lit ''/usr/bin/pnpm'')
               else if c = lit ''pnpm list -g --depth 0'' then Inr (lit ''foo 1.0.0'')
               else Inl (Failure (lit ''Error: Command failed''))),
      fetch_result =
        (\<lambda>t url. Inr \<lparr>ok = True, json = Inr (Obj [(lit ''version'', Str (lit ''1.1.0''))])\<rparr>),
      multiselect_answer = (\<lambda>t msg options. Selected options),
      confirm_answer = (\<lambda>t msg. Confirmed True),
      JSON_parse = (\<lambda>s. None),
      paint = (\<lambda>col s. s)\<rparr>"


text \<open>Every command succeeds and prints nothing.\<close>

definition silent_env :: env where
  "silent_env = sample_env\<lparr>exec_result := (\<lambda>t c. Inr [])\<rparr>"

text \<open>
  Four registries: the request fails; the status is 404; the body is not JSON; the body
  is an object without a version.
\<close>

definition offline_env :: env where
  "offline_env =
     sample_env\<lparr>fetch_result := (\<lambda>t url. Inl (Failure (lit ''TypeError: fetch failed'')))\<rparr>"

definition not_found_env :: env where
  "not_found_env =
     sample_env\<lparr>fetch_result := (\<lambda>t url. Inr \<lparr>ok = False, json = Inr (Str (lit ''Not Found''))\<rparr>)\<rparr>"

definition garbled_env :: env where
  "garbled_env =
     sample_env\<lparr>fetch_result := (\<lambda>t url. Inr \<lparr>ok = True, json = Inl SyntaxError\<rparr>)\<rparr>"

definition no_version_env :: env where
  "no_version_env =
     sample_env\<lparr>fetch_result :=
       (\<lambda>t url. Inr \<lparr>ok = True, json = Inr (Obj [(lit ''name'', Str (lit ''foo''))])\<rparr>)\<rparr>"

text \<open>The package of the sample, as listed and as checked; a second package, of npm.\<close>

definition foo_listed :: GlobalPackage where
  "foo_listed = \<lparr>name = lit ''foo'', version = Str (lit ''1.0.0''), pm = pnpm\<rparr>"

definition foo_update :: PackageWithLatest where
  "foo_update = \<lparr>name = lit ''foo'', version = Str (lit ''1.0.0''), pm = pnpm,
                  latestVersion = Str (lit ''1.1.0''), hasUpdate = True\<rparr>"

definition bar_update :: PackageWithLatest where
  "bar_update = \<lparr>name = lit ''bar'', version = Str (lit ''2.0.0''), pm = npm,
                  latestVersion = Str (lit ''2.0.1''), hasUpdate = True\<rparr>"

text \<open>The traces of \<open>run\<close> and of \<open>execute\<close> on the sample, up to the Selecting state.\<close>

definition sample_prefix:: "event list" where
  "sample_prefix =
     [Ui ConsoleClear,
      Ui (Intro (lit '' @xystack/up '')),
      Ui (SpinnerStart (lit ''Detecting package managers'')),
      Exec (lit ''which npm'') (Inl (Failure (lit ''Error: Command failed''))),
      Exec (lit ''which pnpm'') (Inr (lit ''/usr/bin/pnpm'')),
      Exec (lit ''which yarn'') (Inl (Failure (lit ''Error: Command failed''))),
      Exec (lit ''which bun'') (Inl (Failure (lit ''Error: Command failed''))),
      Ui (SpinnerStop (lit ''Found 1 package manager: pnpm'')),
      Ui (SpinnerStart (lit ''Fetching global packages'')),
      Exec (lit ''pnpm list -g --depth 0'') (Inr (lit ''foo 1.0.0'')),
      Ui (SpinnerStop (lit ''Found 1 global package'')),
      Ui (SpinnerStart (lit ''Checking for updates'')),
      Fetch (lit ''https://registry.npmjs.org/foo/latest'')
        (Inr \<lparr>ok = True, json = Inr (Obj [(lit ''version'', Str (lit ''1.1.0''))])\<rparr>),
      Ui (SpinnerStop (lit ''Found 1 package with updates''))]"

definition execute_prefix :: "event list" where
  "execute_prefix =
     [Ui (SpinnerStart (lit ''Detecting package managers'')),
      Exec (lit ''which npm'') (Inl (Failure (lit ''Error: Command failed''))),
      Exec (lit ''which pnpm'') (Inr (lit ''/usr/bin/pnpm'')),
      Exec (lit ''which yarn'') (Inl (Failure (lit ''Error: Command failed''))),
      Exec (lit ''which bun'') (Inl (Failure (lit ''Error: Command failed''))),
      Ui (SpinnerSucceed (lit ''Found 1 package manager: pnpm'')),
      Ui (SpinnerStart (lit ''Fetching global packages'')),
      Exec (lit ''pnpm list -g --depth 0'') (Inr (lit ''foo 1.0.0'')),
      Ui (SpinnerSucceed (lit ''Found 1 global package'')),
      Ui (SpinnerStart (lit ''Checking for updates'')),
      Fetch (lit ''https://registry.npmjs.org/foo/latest'')
        (Inr \<lparr>ok = True, json = Inr (Obj [(lit ''version'', Str (lit ''1.1.0''))])\<rparr>),
      Ui (SpinnerSucceed (lit ''Found 1 package with updates''))]"

section \<open>Properties of the version comparison\<close>

lemma js_lt_irrefl [simp]: "\<not> js_lt a a"
  by (cases a) auto

lemma js_lt_asym: "js_lt a b \<Longrightarrow> \<not> js_lt b a"
  by (cases a; cases b) auto

lemma js_trichotomy:
  "a \<noteq> NaN \<Longrightarrow> b \<noteq> NaN \<Longrightarrow> \<not> js_lt a b \<Longrightarrow> \<not> js_lt b a \<Longrightarrow> a = b"
  by (cases a; cases b) auto

lemma part_or_zero_not_NaN [simp]: "part_or_zero xs i \<noteq> NaN"
  by (simp add: part_or_zero_def)

text \<open>
  The loop started at index \<open>i\<close> answers true iff some position \<open>k\<close> from \<open>i\<close> on has a
  greater latest component while all positions between \<open>i\<close> and \<open>k\<close> are equal.
\<close>

lemma compareLoop_iff:
  "compareLoop cs ls i \<longleftrightarrow>
     (\<exists>k. i \<le> k \<and> k < max (length cs) (length ls)
        \<and> (\<forall>j. i \<le> j \<and> j < k \<longrightarrow> part_or_zero cs j = part_or_zero ls j)
        \<and> js_gt (part_or_zero ls k) (part_or_zero cs k))"
proof (induction cs ls i rule: compareLoop.induct)
  case (1 cs ls i)
  let ?n = "max (length cs) (length ls)"
  let ?c = "\<lambda>j. part_or_zero cs j" and ?l = "\<lambda>j. part_or_zero ls j"
  let ?R = "\<lambda>i. \<exists>k. i \<le> k \<and> k < ?n \<and> (\<forall>j. i \<le> j \<and> j < k \<longrightarrow> ?c j = ?l j)
                 \<and> js_gt (?l k) (?c k)"
  show ?case
  proof (cases "i < ?n")
    case False
    then show ?thesis by (subst compareLoop.simps) auto
  next
    case inb: True
    consider (gt) "js_gt (?l i) (?c i)"
      | (lt) "\<not> js_gt (?l i) (?c i)" "js_lt (?l i) (?c i)"
      | (eq) "\<not> js_gt (?l i) (?c i)" "\<not> js_lt (?l i) (?c i)"
      by blast
    then show ?thesis
    proof cases
      case gt
      have "compareLoop cs ls i" using inb gt by (subst compareLoop.simps) simp
      moreover have "?R i" using inb gt by (intro exI[of _ i]) auto
      ultimately show ?thesis by simp
    next
      case lt
      have L: "\<not> compareLoop cs ls i" using inb lt by (subst compareLoop.simps) simp
      have "\<not> ?R i"
      proof
        assume "?R i"
        then obtain k where k: "i \<le> k" "k < ?n" "\<forall>j. i \<le> j \<and> j < k \<longrightarrow> ?c j = ?l j"
          "js_gt (?l k) (?c k)" by blast
        show False
        proof (cases "k = i")
          case True
          with k lt show False by simp
        next
          case False
          with k have "?c i = ?l i" by simp
          with lt show False by simp
        qed
      qed
      with L show ?thesis by simp
    next
      case eq
      have same: "?c i = ?l i"
        using eq js_trichotomy[of "?c i" "?l i"] by (simp add: js_gt_def)
      have step: "compareLoop cs ls i = compareLoop cs ls (i + 1)"
        using inb eq by (subst compareLoop.simps) simp
      have IH: "compareLoop cs ls (i + 1) \<longleftrightarrow> ?R (i + 1)"
        using "1.IH"[OF inb refl refl] eq by simp
      have "?R i \<longleftrightarrow> ?R (i + 1)"
      proof
        assume "?R i"
        then obtain k where k: "i \<le> k" "k < ?n" "\<forall>j. i \<le> j \<and> j < k \<longrightarrow> ?c j = ?l j"
          "js_gt (?l k) (?c k)" by blast
        have "k \<noteq> i" using k eq by auto
        with k have "i + 1 \<le> k" by simp
        with k show "?R (i + 1)" by (intro exI[of _ k]) simp
      next
        assume "?R (i + 1)"
        then obtain k where k: "i + 1 \<le> k" "k < ?n"
          "\<forall>j. i + 1 \<le> j \<and> j < k \<longrightarrow> ?c j = ?l j" "js_gt (?l k) (?c k)" by blast
        have "\<forall>j. i \<le> j \<and> j < k \<longrightarrow> ?c j = ?l j"
        proof (intro allI impI)
          fix j assume j: "i \<le> j \<and> j < k"
          show "?c j = ?l j"
          proof (cases "j = i")
            case True
            then show ?thesis using same by simp
          next
            case False
            with j have "i + 1 \<le> j \<and> j < k" by simp
            with k show ?thesis by blast
          qed
        qed
        with k show "?R i" by (intro exI[of _ k]) simp
      qed
      with step IH show ?thesis by simp
    qed
  qed
qed

subsection \<open>The loop and the rule of the first difference\<close>

lemma js_gt_exceeds: "js_gt a b = exceeds a b"
  by (cases a; cases b) (simp_all add: js_gt_def)

lemma zero_padded_nth:
  "i < n \<Longrightarrow> zero_padded n (map nan_as_zero cs) ! i = part_or_zero cs i"
proof (cases "i < length cs")
  case True
  then show ?thesis
    by (cases "cs ! i") (simp_all add: zero_padded_def part_or_zero_def nth_append)
next
  case False
  assume "i < n"
  with False show ?thesis
    by (simp add: zero_padded_def part_or_zero_def nth_append)
qed

lemma length_zero_padded: "length (zero_padded n cs) = max n (length cs)"
  by (simp add: zero_padded_def)

lemma length_compared_components:
  "length (compared_components cs ls) = max (length cs) (length ls)"
  by (simp add: compared_components_def length_zero_padded)

lemma compared_components_nth:
  "i < max (length cs) (length ls) \<Longrightarrow>
   compared_components cs ls ! i = (part_or_zero cs i, part_or_zero ls i)"
  by (simp add: compared_components_def length_zero_padded zero_padded_nth)

text \<open>The loop started at index \<open>i\<close> looks for the first difference from position \<open>i\<close> on.\<close>

lemma compareLoop_find:
  "compareLoop cs ls i =
     (case find (\<lambda>(c, l). c \<noteq> l) (drop i (compared_components cs ls)) of
        None \<Rightarrow> False
      | Some (c, l) \<Rightarrow> exceeds l c)"
proof (induction cs ls i rule: compareLoop.induct)
  case (1 cs ls i)
  let ?n = "max (length cs) (length ls)"
  let ?c = "part_or_zero cs i" and ?l = "part_or_zero ls i"
  show ?case
  proof (cases "i < ?n")
    case False
    then have "length (compared_components cs ls) \<le> i"
      by (simp only: length_compared_components not_less)
    with False show ?thesis
      by (subst compareLoop.simps) simp
  next
    case inb: True
    have d: "drop i (compared_components cs ls) =
        (?c, ?l) # drop (i + 1) (compared_components cs ls)"
      using inb Cons_nth_drop_Suc[of i "compared_components cs ls"]
      by (simp add: length_compared_components compared_components_nth)
    consider (gt) "js_gt ?l ?c"
      | (lt) "\<not> js_gt ?l ?c" "js_lt ?l ?c"
      | (eq) "\<not> js_gt ?l ?c" "\<not> js_lt ?l ?c"
      by blast
    then show ?thesis
    proof cases
      case gt
      then have "?c \<noteq> ?l" by (auto simp: js_gt_def)
      moreover have "compareLoop cs ls i" using inb gt by (subst compareLoop.simps) simp
      ultimately show ?thesis using gt by (simp add: d js_gt_exceeds)
    next
      case lt
      then have "?c \<noteq> ?l" by auto
      moreover have "\<not> compareLoop cs ls i" using inb lt by (subst compareLoop.simps) simp
      ultimately show ?thesis using lt by (simp add: d js_gt_exceeds [symmetric])
    next
      case eq
      have same: "?c = ?l"
        using eq js_trichotomy[of ?c ?l] by (simp add: js_gt_def)
      have step: "compareLoop cs ls i = compareLoop cs ls (i + 1)"
        using inb eq by (subst compareLoop.simps) simp
      show ?thesis
        using "1.IH"[OF inb refl refl] eq same step by (simp add: d)
    qed
  qed
qed

lemma compareLoop_newer: "compareLoop cs ls 0 = newer_at_first_difference cs ls"
  by (simp add: compareLoop_find newer_at_first_difference_def)

text \<open>The rule, position by position.\<close>

lemma find_first_index:
  "(case find P xs of None \<Rightarrow> False | Some x \<Rightarrow> Q x) \<longleftrightarrow>
     (\<exists>i < length xs. (\<forall>j < i. \<not> P (xs ! j)) \<and> P (xs ! i) \<and> Q (xs ! i))"
proof (cases "find P xs")
  case None
  then have "\<forall>x \<in> set xs. \<not> P x" by (simp add: find_None_iff)
  then have "\<not> (\<exists>i < length xs. (\<forall>j < i. \<not> P (xs ! j)) \<and> P (xs ! i) \<and> Q (xs ! i))"
    by auto
  with None show ?thesis by simp
next
  case (Some x)
  then obtain i where i: "i < length xs" "P (xs ! i)" "x = xs ! i" "\<forall>j < i. \<not> P (xs ! j)"
    unfolding find_Some_iff by blast
  have u: "k = i" if "k < length xs" "\<forall>j < k. \<not> P (xs ! j)" "P (xs ! k)" for k
  proof (rule ccontr)
    assume "k \<noteq> i"
    then consider "k < i" | "i < k" by linarith
    then show False
    proof cases
      case 1
      with i(4) that(3) show False by blast
    next
      case 2
      with that(2) i(2) show False by blast
    qed
  qed
  have l: "(case find P xs of None \<Rightarrow> False | Some x \<Rightarrow> Q x) = Q (xs ! i)"
    using Some i(3) by simp
  have r: "(\<exists>k < length xs. (\<forall>j < k. \<not> P (xs ! j)) \<and> P (xs ! k) \<and> Q (xs ! k)) = Q (xs ! i)"
  proof
    assume "\<exists>k < length xs. (\<forall>j < k. \<not> P (xs ! j)) \<and> P (xs ! k) \<and> Q (xs ! k)"
    then obtain k where k: "k < length xs" "\<forall>j < k. \<not> P (xs ! j)" "P (xs ! k)" "Q (xs ! k)"
      by blast
    from u[OF k(1) k(2) k(3)] k(4) show "Q (xs ! i)" by simp
  next
    assume "Q (xs ! i)"
    with i show "\<exists>k < length xs. (\<forall>j < k. \<not> P (xs ! j)) \<and> P (xs ! k) \<and> Q (xs ! k)"
      by blast
  qed
  from l r show ?thesis by simp
qed

lemma newer_at_first_difference_iff:
  "newer_at_first_difference cs ls \<longleftrightarrow>
     (\<exists>i < max (length cs) (length ls).
        (\<forall>j < i. fst (compared_components cs ls ! j) = snd (compared_components cs ls ! j))
        \<and> fst (compared_components cs ls ! i) \<noteq> snd (compared_components cs ls ! i)
        \<and> exceeds (snd (compared_components cs ls ! i)) (fst (compared_components cs ls ! i)))"
  unfolding newer_at_first_difference_def
    find_first_index [where P = "\<lambda>(c, l). c \<noteq> l" and xs = "compared_components cs ls"
       and Q = "\<lambda>(c, l). exceeds l c"]
    length_compared_components
  by (simp add: case_prod_unfold)

lemma all_equal_not_newer:
  "list_all (\<lambda>(c, l). c = l) (compared_components cs ls) \<Longrightarrow> \<not> newer_at_first_difference cs ls"
proof -
  assume "list_all (\<lambda>(c, l). c = l) (compared_components cs ls)"
  then have "find (\<lambda>(c, l). c \<noteq> l) (compared_components cs ls) = None"
    by (auto simp: find_None_iff list_all_iff)
  then show ?thesis by (simp add: newer_at_first_difference_def)
qed

lemma part_or_zero_nan_as_zero [simp]:
  "part_or_zero (map nan_as_zero xs) i = part_or_zero xs i"
proof (cases "i < length xs")
  case True
  then show ?thesis by (cases "xs ! i") (simp_all add: part_or_zero_def)
next
  case False
  then show ?thesis by (simp add: part_or_zero_def)
qed

lemma compareLoop_nan_as_zero:
  "compareLoop (map nan_as_zero cs) (map nan_as_zero ls) i = compareLoop cs ls i"
  by (simp add: compareLoop_iff)

subsection \<open>Evaluation on concrete version strings\<close>

lemma round_binary64_small:
  "round_binary64 0 = Finite 0" "round_binary64 1 = Finite 1" "round_binary64 2 = Finite 2"
  by (simp_all add: round_binary64_def floor_log2_def bit_length.simps pow2_def
      round_half_even_def Let_def)

lemmas number_defs = Number_def trim_def is_space_def is_line_terminator_def radix_literal_def
  unsigned_literal_def unsigned_decimal_def is_digit_def digits_val_def digit_val_def pow10_def
  signed_integer_def all_digits_def lit_def Let_def

lemma Number_small:
  "Number [] = Finite 0"
  "Number [0x30] = Finite 0" "Number [0x31] = Finite 1" "Number [0x32] = Finite 2"
  by (simp_all add: number_defs round_binary64_small)

lemma Number_beta:
  "Number [0x30, 0x2D, 0x62, 0x65, 0x74, 0x61] = NaN"
  "Number [0x31, 0x2D, 0x62, 0x65, 0x74, 0x61] = NaN"
  by (simp_all add: number_defs)

lemmas version_eval = compareVersions_def numeric_components_def lit_def is_digit_def
  Number_small Number_beta compareLoop.simps part_or_zero_def js_gt_def

text \<open>The model passes the tests of the repository (\<open>test/index.test.ts\<close>).\<close>

lemma compareVersions_repository_tests:
  "compareVersions (Str (lit ''1.0.0'')) (Str (lit ''1.0.1'')) = Inr True"
  "compareVersions (Str (lit ''1.0.0'')) (Str (lit ''1.1.0'')) = Inr True"
  "compareVersions (Str (lit ''1.0.0'')) (Str (lit ''2.0.0'')) = Inr True"
  "compareVersions (Str (lit ''1.0.0'')) (Str (lit ''1.0.0'')) = Inr False"
  "compareVersions (Str (lit ''1.0.1'')) (Str (lit ''1.0.0'')) = Inr False"
  "compareVersions (Str (lit ''2.0.0'')) (Str (lit ''1.0.0'')) = Inr False"
  "compareVersions (Str (lit ''v1.0.0'')) (Str (lit ''v1.0.1'')) = Inr True"
  "compareVersions (Str (lit ''^1.0.0'')) (Str (lit ''^1.1.0'')) = Inr True"
  by (simp_all add: version_eval)

lemma compareVersions_unequal_lengths:
  "compareVersions (Str (lit ''1.0'')) (Str (lit ''1.0.1'')) = Inr True"
  "compareVersions (Str (lit ''1.0.1'')) (Str (lit ''1.0'')) = Inr False"
  "compareVersions (Str (lit ''1.0.0'')) (Str (lit ''1.0'')) = Inr False"
  "compareVersions (Str (lit ''1.0'')) (Str (lit ''1.0.0'')) = Inr False"
  "compareVersions (Str (lit ''1'')) (Str (lit ''1.0.1'')) = Inr True"
  by (simp_all add: version_eval)

lemmas components_eval = compared_components_def zero_padded_def numeric_components_def
  lit_def is_digit_def Number_small

lemma compared_components_samples:
  "compared_components (numeric_components (lit ''1.0.0'')) (numeric_components (lit ''1.0.1''))
     = [(Finite 1, Finite 1), (Finite 0, Finite 0), (Finite 0, Finite 1)]"
  "compared_components (numeric_components (lit ''1.0'')) (numeric_components (lit ''1.0.1''))
     = [(Finite 1, Finite 1), (Finite 0, Finite 0), (Finite 0, Finite 1)]"
  "compared_components (numeric_components (lit ''1.0.1'')) (numeric_components (lit ''1.0''))
     = [(Finite 1, Finite 1), (Finite 0, Finite 0), (Finite 1, Finite 0)]"
  "compared_components (numeric_components (lit ''1.0.0'')) (numeric_components (lit ''1.0''))
     = [(Finite 1, Finite 1), (Finite 0, Finite 0), (Finite 0, Finite 0)]"
  "compared_components (numeric_components []) (numeric_components (lit ''1.0.0''))
     = [(Finite 0, Finite 1), (Finite 0, Finite 0), (Finite 0, Finite 0)]"
  by (simp_all add: components_eval)

text \<open>
  Claim C1, as stated for every pair of version strings, fails on an empty current
  version: the components of the empty string are \<open>[0]\<close>, those of \<open>1.0.0\<close> are
  \<open>[1, 0, 0]\<close>, so the first compared position holds 0 against 1 and the rule of the
  first difference answers true, while the guard on empty inputs makes \<open>compareVersions\<close>
  answer false.
\<close>

theorem compareVersions_empty_current_counterexample:
  "compareVersions (Str []) (Str (lit ''1.0.0'')) = Inr False
   \<and> compared_components (numeric_components []) (numeric_components (lit ''1.0.0''))
       = [(Finite 0, Finite 1), (Finite 0, Finite 0), (Finite 0, Finite 0)]
   \<and> newer_at_first_difference (numeric_components []) (numeric_components (lit ''1.0.0''))"
  by (simp add: compareVersions_def newer_at_first_difference_def compared_components_samples)

text \<open>
  Claim C1, amended to non-empty version strings: \<open>compareVersions(current, latest)\<close>
  returns normally, and its result is true iff at the first position where the numeric
  components differ (each part converted by \<open>Number\<close>, a part that is not a number read
  as 0, the shorter sequence filled up with zeros to the length of the longer one) the
  component of \<open>latest\<close> exceeds that of \<open>current\<close>; it is false when all compared
  positions are equal. When either input is the empty string the result is false.
\<close>

theorem compareVersions_newer_at_first_difference:
  assumes "current \<noteq> []" and "latest \<noteq> []"
  shows "compareVersions (Str current) (Str latest) =
           Inr (newer_at_first_difference (numeric_components current) (numeric_components latest))
         \<and> (list_all (\<lambda>(c, l). c = l)
               (compared_components (numeric_components current) (numeric_components latest))
             \<longrightarrow> compareVersions (Str current) (Str latest) = Inr False)
         \<and> compareVersions (Str []) other = Inr False
         \<and> compareVersions other (Str []) = Inr False"
proof -
  have eq: "compareVersions (Str current) (Str latest) =
      Inr (newer_at_first_difference (numeric_components current) (numeric_components latest))"
    using assms by (simp add: compareVersions_def numeric_components_def compareLoop_newer)
  have "compareVersions (Str []) other = Inr False"
    and "compareVersions other (Str []) = Inr False"
    by (simp_all add: compareVersions_def)
  with eq all_equal_not_newer [of "numeric_components current" "numeric_components latest"]
  show ?thesis by simp
qed

theorem compareVersions_newer_at_first_difference_witness:
  "lit ''1.0.0'' \<noteq> [] \<and> lit ''1.0.1'' \<noteq> [] \<and> lit ''1.0'' \<noteq> []
   \<and> newer_at_first_difference (numeric_components (lit ''1.0.0'')) (numeric_components (lit ''1.0.1''))
   \<and> compareVersions (Str (lit ''1.0.0'')) (Str (lit ''1.0.1'')) = Inr True
   \<and> newer_at_first_difference (numeric_components (lit ''1.0'')) (numeric_components (lit ''1.0.1''))
   \<and> compareVersions (Str (lit ''1.0'')) (Str (lit ''1.0.1'')) = Inr True
   \<and> \<not> newer_at_first_difference (numeric_components (lit ''1.0.1'')) (numeric_components (lit ''1.0''))
   \<and> compareVersions (Str (lit ''1.0.1'')) (Str (lit ''1.0'')) = Inr False
   \<and> list_all (\<lambda>(c, l). c = l)
         (compared_components (numeric_components (lit ''1.0.0'')) (numeric_components (lit ''1.0'')))
   \<and> compareVersions (Str (lit ''1.0.0'')) (Str (lit ''1.0'')) = Inr False
   \<and> compareVersions (Str []) (Str (lit ''1.0.1'')) = Inr False
   \<and> compareVersions (Str (lit ''1.0.0'')) (Str []) = Inr False"
proof -
  have a: "lit ''1.0.0'' \<noteq> []" and b: "lit ''1.0.1'' \<noteq> []" and c: "lit ''1.0'' \<noteq> []"
    by (simp_all add: lit_def)
  have n1: "newer_at_first_difference (numeric_components (lit ''1.0.0''))
              (numeric_components (lit ''1.0.1''))"
    and n2: "newer_at_first_difference (numeric_components (lit ''1.0''))
              (numeric_components (lit ''1.0.1''))"
    and n3: "\<not> newer_at_first_difference (numeric_components (lit ''1.0.1''))
              (numeric_components (lit ''1.0''))"
    and n4: "list_all (\<lambda>(c, l). c = l)
              (compared_components (numeric_components (lit ''1.0.0'')) (numeric_components (lit ''1.0'')))"
    by (simp_all add: newer_at_first_difference_def compared_components_samples)
  from compareVersions_newer_at_first_difference [OF a b, of "Str (lit ''1.0.1'')"] n1
  have 1: "compareVersions (Str (lit ''1.0.0'')) (Str (lit ''1.0.1'')) = Inr True"
    and 5: "compareVersions (Str []) (Str (lit ''1.0.1'')) = Inr False"
    by simp_all
  from compareVersions_newer_at_first_difference [OF c b, of "Str (lit ''1.0.0'')"] n2
  have 2: "compareVersions (Str (lit ''1.0'')) (Str (lit ''1.0.1'')) = Inr True"
    and 6: "compareVersions (Str (lit ''1.0.0'')) (Str []) = Inr False"
    by simp_all
  from compareVersions_newer_at_first_difference [OF b c] n3
  have 3: "compareVersions (Str (lit ''1.0.1'')) (Str (lit ''1.0'')) = Inr False"
    by simp
  from compareVersions_newer_at_first_difference [OF a c, of "Str []"] n4
  have 4: "compareVersions (Str (lit ''1.0.0'')) (Str (lit ''1.0'')) = Inr False"
    by blast
  from a b c n1 n2 n3 n4 1 2 3 4 5 6 show ?thesis by simp
qed

text \<open>
  Claim C10, as stated, fails: a component that parses to NaN is replaced by 0 by
  \<open>|| 0\<close> and then takes part in the comparison. In \<open>compareVersions("1.0.0-beta", "1.0.1")\<close>
  the third component of the current version is NaN, the greater-than test at that
  position is true, and the position decides the result.
\<close>

theorem compareVersions_nan_position_decides_counterexample:
  "numeric_components (lit ''1.0.0-beta'') ! 2 = NaN
   \<and> js_gt (part_or_zero (numeric_components (lit ''1.0.1'')) 2)
           (part_or_zero (numeric_components (lit ''1.0.0-beta'')) 2)
   \<and> compareVersions (Str (lit ''1.0.0-beta'')) (Str (lit ''1.0.1'')) = Inr True"
  by (simp add: version_eval)

text \<open>
  Claim C10, amended: a component such as \<open>1-beta\<close> parses to NaN, and a NaN component is
  compared as 0 (the comparison of any two part lists is the comparison of the lists with
  every NaN replaced by 0), so the position decides exactly when the other side is not 0
  there; in particular \<open>compareVersions("1.0.0", "1.0.1-beta")\<close> is false.
\<close>

theorem compareVersions_nan_component_is_zero:
  "Number (lit ''1-beta'') = NaN
   \<and> part_or_zero (map Number [lit ''1'', lit ''0'', lit ''1-beta'']) 2 = Finite 0
   \<and> compareLoop cs ls 0 = compareLoop (map nan_as_zero cs) (map nan_as_zero ls) 0
   \<and> compareVersions (Str (lit ''1.0.0'')) (Str (lit ''1.0.1-beta'')) = Inr False"
proof -
  have "Number (lit ''1-beta'') = NaN"
    by (simp add: version_eval)
  moreover have "part_or_zero (map Number [lit ''1'', lit ''0'', lit ''1-beta'']) 2 = Finite 0"
    by (simp add: version_eval)
  moreover have "compareVersions (Str (lit ''1.0.0'')) (Str (lit ''1.0.1-beta'')) = Inr False"
    by (simp add: version_eval)
  ultimately show ?thesis
    by (simp add: compareLoop_nan_as_zero)
qed

theorem compareVersions_nan_component_is_zero_witness:
  "compareLoop [Finite 1, NaN] [Finite 1, Finite 2] 0
     = compareLoop [Finite 1, Finite 0] [Finite 1, Finite 2] 0
   \<and> compareLoop [Finite 1, NaN] [Finite 1, Finite 2] 0"
  using compareVersions_nan_component_is_zero [of "[Finite 1, NaN]" "[Finite 1, Finite 2]"]
  by (simp add: compareLoop.simps part_or_zero_def js_gt_def)

section \<open>Properties of traces\<close>

lemma execs_append [simp]: "execs (t @ u) = execs t @ execs u"
  by (induction t rule: execs.induct) simp_all

lemma exec_results_append [simp]: "exec_results (t @ u) = exec_results t @ exec_results u"
  by (induction t rule: exec_results.induct) simp_all

lemma user_aborted_simps [simp]:
  "user_aborted [] = False"
  "user_aborted (ev # t) = (is_abort ev \<or> user_aborted t)"
  "user_aborted (t @ u) = (user_aborted t \<or> user_aborted u)"
  by (simp_all add: user_aborted_def)

lemma upgrade_commands_simps [simp]:
  "upgrade_commands [] = []"
  "upgrade_commands (t @ u) = upgrade_commands t @ upgrade_commands u"
  "upgrade_commands (Ui x # t) = upgrade_commands t"
  "upgrade_commands (Fetch url fr # t) = upgrade_commands t"
  "upgrade_commands (Multiselect msg options a # t) = upgrade_commands t"
  "upgrade_commands (Confirm msg b # t) = upgrade_commands t"
  "upgrade_commands (Exec c r # t) = (if is_upgrade_command c then c # upgrade_commands t else upgrade_commands t)"
  by (simp_all add: upgrade_commands_def)

lemma pm_string_inject [simp]: "pm_string a = pm_string b \<longleftrightarrow> a = b"
  by (cases a; cases b) (simp_all add: lit_def)

lemma which_not_upgrade [simp]: "\<not> is_upgrade_command (lit ''which '' @ pm_string m)"
  by (cases m) (simp_all add: is_upgrade_command_def lit_def)

lemma list_command_not_upgrade [simp]: "\<not> is_upgrade_command (list_command m)"
  by (cases m) (simp_all add: is_upgrade_command_def lit_def)

lemma upgrade_command_is_upgrade [simp]: "is_upgrade_command (upgrade_command m packages)"
  by (cases m) (simp_all add: is_upgrade_command_def)

section \<open>Properties of the package manager utilities\<close>

lemma commandExists_eq:
  "commandExists e c t =
     (Inr (\<not> isl (exec_result e t (lit ''which '' @ c))),
      t @ [Exec (lit ''which '' @ c) (exec_result e t (lit ''which '' @ c))])"
  by (cases "exec_result e t (lit ''which '' @ c)") (simp_all add: commandExists_def execAsync_def)

text \<open>
  The detection loop never fails; it probes every manager of its list once, in order, and
  adds exactly those whose probe succeeded.
\<close>

lemma detect_loop_exact:
  "distinct ms \<Longrightarrow>
   \<exists>found d. detect_loop e ms available t = (Inr (available @ found), t @ d)
     \<and> execs d = map (\<lambda>m. lit ''which '' @ pm_string m) ms
     \<and> set found = {m. \<exists>out. Exec (lit ''which '' @ pm_string m) (Inr out) \<in> set d}
     \<and> distinct found \<and> set found \<subseteq> set ms
     \<and> (\<forall>ev \<in> set d. \<exists>m \<in> set ms. \<exists>r. ev = Exec (lit ''which '' @ pm_string m) r)"
proof (induction ms arbitrary: available t)
  case Nil
  then show ?case by simp
next
  case (Cons m ms)
  let ?c = "lit ''which '' @ pm_string m"
  let ?r = "exec_result e t ?c"
  let ?av = "if \<not> isl ?r then available @ [m] else available"
  from Cons.prems have dist: "distinct ms" and notin: "m \<notin> set ms" by simp_all
  from Cons.IH[OF dist, of ?av "t @ [Exec ?c ?r]"]
  obtain found d where
    loop: "detect_loop e ms ?av (t @ [Exec ?c ?r]) = (Inr (?av @ found), (t @ [Exec ?c ?r]) @ d)"
    and ex: "execs d = map (\<lambda>m. lit ''which '' @ pm_string m) ms"
    and fs: "set found = {m. \<exists>out. Exec (lit ''which '' @ pm_string m) (Inr out) \<in> set d}"
    and df: "distinct found" and sub: "set found \<subseteq> set ms"
    and evs: "\<forall>ev \<in> set d. \<exists>m \<in> set ms. \<exists>r. ev = Exec (lit ''which '' @ pm_string m) r"
    by blast
  have m_not_in_d: "Exec ?c r \<notin> set d" for r
  proof
    assume "Exec ?c r \<in> set d"
    with evs obtain m' r' where "m' \<in> set ms" "Exec ?c r = Exec (lit ''which '' @ pm_string m') r'"
      by blast
    then have "m' = m" by simp
    with \<open>m' \<in> set ms\<close> notin show False by simp
  qed
  let ?found = "(if \<not> isl ?r then [m] else []) @ found"
  let ?d = "Exec ?c ?r # d"
  have 1: "detect_loop e (m # ms) available t = (Inr (available @ ?found), t @ ?d)"
    using loop by (simp add: commandExists_eq)
  have 2: "execs ?d = map (\<lambda>m. lit ''which '' @ pm_string m) (m # ms)"
    using ex by simp
  have 3: "set ?found = {m'. \<exists>out. Exec (lit ''which '' @ pm_string m') (Inr out) \<in> set ?d}"
  proof (cases ?r)
    case (Inl x)
    then show ?thesis using fs by auto
  next
    case (Inr out)
    then show ?thesis using fs m_not_in_d by auto
  qed
  have 4: "distinct ?found" using df sub notin by auto
  have 5: "set ?found \<subseteq> set (m # ms)" using sub by auto
  have 6: "\<forall>ev \<in> set ?d. \<exists>m' \<in> set (m # ms). \<exists>r. ev = Exec (lit ''which '' @ pm_string m') r"
    using evs by auto
  from 1 2 3 4 5 6 show ?case by blast
qed

lemma upgradePackages_nonempty:
  "names \<noteq> [] \<Longrightarrow>
   upgradePackages e m names t =
     (case exec_result e t (upgrade_command m (js_join (lit '' '') (map (\<lambda>n. n @ lit ''@latest'') names))) of
        Inl x \<Rightarrow> Inl x | Inr out \<Rightarrow> Inr (),
      t @ [Exec (upgrade_command m (js_join (lit '' '') (map (\<lambda>n. n @ lit ''@latest'') names)))
             (exec_result e t (upgrade_command m (js_join (lit '' '') (map (\<lambda>n. n @ lit ''@latest'') names))))])"
  by (simp add: upgradePackages_def execAsync_def split: sum.splits)

subsection \<open>Listing\<close>

lemma parse_lines_pm: "p \<in> set (parse_lines match m ls) \<Longrightarrow> pm p = m"
  by (induction ls) (auto split: option.splits prod.splits if_splits)

lemma yarn_items_pm_all: "\<forall>p \<in> set (yarn_items m items). pm p = m"
  by (induction m items rule: yarn_items.induct) (auto split: option.splits prod.splits)

lemma yarn_body_pm: "p \<in> set (yarn_body m b) \<Longrightarrow> pm p = m"
  using yarn_items_pm_all by (cases b) auto

lemma yarn_line_cases:
  "yarn_line e m l = [] \<or> (\<exists>b. yarn_line e m l = yarn_body m b)"
  unfolding yarn_line_def
  by (auto split: option.split sum.split)

lemma yarn_line_pm:
  assumes "p \<in> set (yarn_line e m l)"
  shows "pm p = m"
  using assms yarn_line_cases[of e m l] yarn_body_pm by fastforce

lemma npm_entries_pm: "npm_entries m entries = Inr ps \<Longrightarrow> p \<in> set ps \<Longrightarrow> pm p = m"
  by (induction entries arbitrary: ps) (auto split: sum.splits if_splits)

lemma npm_packages_pm: "npm_packages e m out = Inr ps \<Longrightarrow> p \<in> set ps \<Longrightarrow> pm p = m"
  by (auto simp: npm_packages_def dest: npm_entries_pm split: option.splits sum.splits if_splits)

lemma parse_listing_pm: "parse_listing e m out = Inr ps \<Longrightarrow> p \<in> set ps \<Longrightarrow> pm p = m"
  by (cases m) (auto dest: parse_lines_pm yarn_line_pm npm_packages_pm)

lemma getGlobalPackages_result:
  "\<exists>ps. getGlobalPackages e m t =
          (Inr ps, t @ [Exec (list_command m) (exec_result e t (list_command m))])
        \<and> (\<forall>p \<in> set ps. pm p = m)"
  by (auto simp: getGlobalPackages_def execAsync_def dest: parse_listing_pm split: sum.splits)

lemma fetch_packages_result:
  "\<exists>ps d. fetch_packages e ms allPackages t = (Inr (allPackages @ ps), t @ d)
     \<and> execs d = map list_command ms \<and> \<not> user_aborted d \<and> upgrade_commands d = []
     \<and> (\<forall>p \<in> set ps. pm p \<in> set ms)"
proof (induction ms arbitrary: allPackages t)
  case Nil
  then show ?case by simp
next
  case (Cons m ms)
  obtain ps where g: "getGlobalPackages e m t =
      (Inr ps, t @ [Exec (list_command m) (exec_result e t (list_command m))])"
    and gp: "\<forall>p \<in> set ps. pm p = m"
    using getGlobalPackages_result by blast
  let ?t1 = "t @ [Exec (list_command m) (exec_result e t (list_command m))]"
  from Cons.IH[of "allPackages @ ps" ?t1]
  obtain qs d where
    f: "fetch_packages e ms (allPackages @ ps) ?t1 = (Inr ((allPackages @ ps) @ qs), ?t1 @ d)"
    and ex: "execs d = map list_command ms" and na: "\<not> user_aborted d"
    and nu: "upgrade_commands d = []" and qp: "\<forall>p \<in> set qs. pm p \<in> set ms"
    by blast
  let ?d = "Exec (list_command m) (exec_result e t (list_command m)) # d"
  have "fetch_packages e (m # ms) allPackages t = (Inr (allPackages @ (ps @ qs)), t @ ?d)"
    using g f by simp
  moreover have "execs ?d = map list_command (m # ms)" using ex by simp
  moreover have "\<not> user_aborted ?d" using na by simp
  moreover have "upgrade_commands ?d = []" using nu by simp
  moreover have "\<forall>p \<in> set (ps @ qs). pm p \<in> set (m # ms)" using gp qp by auto
  ultimately show ?case by blast
qed

section \<open>Properties of the registry client\<close>

lemma getLatestVersion_result:
  "\<exists>v. getLatestVersion e n t =
     (Inr v, t @ [Fetch (lit ''https://registry.npmjs.org/'' @ n @ lit ''/latest'')
                    (fetch_result e t (lit ''https://registry.npmjs.org/'' @ n @ lit ''/latest''))])"
  by (auto simp: getLatestVersion_def fetch_def split: sum.splits)

lemma get_prop_lacks_version:
  "lacks_version data \<Longrightarrow> get_prop data (lit ''version'') = Inr v \<Longrightarrow> v = Undefined"
  by (cases data) auto

lemma check_updates_result:
  "\<exists>out d. check_updates e pkgs acc t = (out, t @ d)
     \<and> execs d = [] \<and> \<not> user_aborted d \<and> upgrade_commands d = []"
proof (induction pkgs arbitrary: acc t)
  case Nil
  then show ?case by simp
next
  case (Cons pkg pkgs)
  let ?url = "lit ''https://registry.npmjs.org/'' @ name pkg @ lit ''/latest''"
  let ?t1 = "t @ [Fetch ?url (fetch_result e t ?url)]"
  obtain v where g: "getLatestVersion e (name pkg) t = (Inr v, ?t1)"
    using getLatestVersion_result by blast
  have step: "\<exists>out d. check_updates e pkgs acc' ?t1 = (out, ?t1 @ d)
     \<and> execs d = [] \<and> \<not> user_aborted d \<and> upgrade_commands d = []" for acc'
    using Cons.IH by blast
  show ?case
  proof (cases "truthy v")
    case False
    from step[of acc] obtain out d where
      "check_updates e pkgs acc ?t1 = (out, ?t1 @ d)" "execs d = []" "\<not> user_aborted d"
      "upgrade_commands d = []" by blast
    then have "check_updates e (pkg # pkgs) acc t = (out, t @ (Fetch ?url (fetch_result e t ?url) # d))
       \<and> execs (Fetch ?url (fetch_result e t ?url) # d) = []
       \<and> \<not> user_aborted (Fetch ?url (fetch_result e t ?url) # d)
       \<and> upgrade_commands (Fetch ?url (fetch_result e t ?url) # d) = []"
      using g False by simp
    then show ?thesis by blast
  next
    case True
    show ?thesis
    proof (cases "compareVersions (version pkg) v")
      case (Inl x)
      then have "check_updates e (pkg # pkgs) acc t = (Inl x, t @ [Fetch ?url (fetch_result e t ?url)])
         \<and> execs [Fetch ?url (fetch_result e t ?url)] = []
         \<and> \<not> user_aborted [Fetch ?url (fetch_result e t ?url)]
         \<and> upgrade_commands [Fetch ?url (fetch_result e t ?url)] = []"
        using g True by simp
      then show ?thesis by blast
    next
      case (Inr update)
      let ?acc = "acc @ [\<lparr>name = name pkg, version = version pkg, pm = pm pkg,
                           latestVersion = v, hasUpdate = update\<rparr>]"
      from step[of ?acc] obtain out d where
        "check_updates e pkgs ?acc ?t1 = (out, ?t1 @ d)" "execs d = []" "\<not> user_aborted d"
        "upgrade_commands d = []" by blast
      then have "check_updates e (pkg # pkgs) acc t = (out, t @ (Fetch ?url (fetch_result e t ?url) # d))
         \<and> execs (Fetch ?url (fetch_result e t ?url) # d) = []
         \<and> \<not> user_aborted (Fetch ?url (fetch_result e t ?url) # d)
         \<and> upgrade_commands (Fetch ?url (fetch_result e t ?url) # d) = []"
        using g True Inr by simp
      then show ?thesis by blast
    qed
  qed
qed

section \<open>Properties of the orchestrator\<close>

subsection \<open>Grouping\<close>

lemma map_of_group_step:
  "map_of (group_step al p) =
     (map_of al)(pm p \<mapsto> (case map_of al (pm p) of None \<Rightarrow> [] | Some ps \<Rightarrow> ps) @ [p])"
  by (cases "map_of al (pm p)") (simp_all add: group_step_def update_conv')

lemma distinct_group_step:
  "distinct (map fst al) \<Longrightarrow> distinct (map fst (group_step al p))"
  by (cases "map_of al (pm p)") (simp_all add: group_step_def distinct_update update_conv')

lemma distinct_foldl_group_step:
  "distinct (map fst al) \<Longrightarrow> distinct (map fst (foldl group_step al ps))"
  by (induction ps arbitrary: al) (simp_all add: distinct_group_step)

lemma map_of_foldl_group_step:
  "map_of (foldl group_step al ps) m =
     (if filter (\<lambda>p. pm p = m) ps = [] then map_of al m
      else Some ((case map_of al m of None \<Rightarrow> [] | Some qs \<Rightarrow> qs) @ filter (\<lambda>p. pm p = m) ps))"
proof (induction ps arbitrary: al)
  case Nil
  then show ?case by simp
next
  case (Cons p ps)
  show ?case
    by (simp add: Cons.IH map_of_group_step split: option.splits)
qed

lemma distinct_groupByPM: "distinct (map fst (groupByPM selected))"
  by (simp add: groupByPM_def distinct_foldl_group_step)

lemma map_of_groupByPM:
  "map_of (groupByPM selected) m =
     (if filter (\<lambda>p. pm p = m) selected = [] then None
      else Some (filter (\<lambda>p. pm p = m) selected))"
  by (simp add: groupByPM_def map_of_foldl_group_step)

lemma groupByPM_groups:
  assumes "g \<in> set (groupByPM selected)"
  shows "snd g = filter (\<lambda>p. pm p = fst g) selected \<and> snd g \<noteq> []"
proof -
  from assms have "(fst g, snd g) \<in> set (groupByPM selected)"
    by simp
  then have "map_of (groupByPM selected) (fst g) = Some (snd g)"
    by (simp only: map_of_eq_Some_iff [OF distinct_groupByPM])
  then show ?thesis
    by (simp add: map_of_groupByPM split: if_splits)
qed

lemma groupByPM_keys: "fst ` set (groupByPM selected) = pm ` set selected"
proof -
  have "m \<in> fst ` set (groupByPM selected) \<longleftrightarrow> m \<in> pm ` set selected" for m
  proof -
    have "m \<in> fst ` set (groupByPM selected) \<longleftrightarrow> map_of (groupByPM selected) m \<noteq> None"
      by (simp add: map_of_eq_None_iff)
    also have "\<dots> \<longleftrightarrow> filter (\<lambda>p. pm p = m) selected \<noteq> []"
      by (simp add: map_of_groupByPM)
    also have "\<dots> \<longleftrightarrow> m \<in> pm ` set selected"
      by (auto simp: filter_empty_conv)
    finally show ?thesis .
  qed
  then show ?thesis by blast
qed

subsection \<open>The Upgrading state\<close>

lemma upgradePackages_group:
  assumes "snd g \<noteq> []"
  shows "upgradePackages e (fst g) (map name (snd g)) t =
           (case exec_result e t (group_command g) of Inl x \<Rightarrow> Inl x | Inr out \<Rightarrow> Inr (),
            t @ [Exec (group_command g) (exec_result e t (group_command g))])"
  using assms by (simp add: upgradePackages_nonempty group_command_def)

text \<open>
  Whatever the commands answer, the loop of \<open>run\<close> issues the command of every group,
  once and in order, and no prompt.
\<close>

lemma run_upgrade_loop_trace:
  assumes "\<forall>g \<in> set groups. snd g \<noteq> []"
  shows "\<exists>n d. run_upgrade_loop e tot groups k t = (n, t @ d)
           \<and> execs d = map group_command groups \<and> \<not> user_aborted d"
  using assms
proof (induction groups arbitrary: k t)
  case Nil
  then show ?case by simp
next
  case (Cons g groups)
  obtain m packages where g: "g = (m, packages)" by (cases g)
  from Cons.prems have ne: "snd g \<noteq> []" and rest: "\<forall>g \<in> set groups. snd g \<noteq> []" by simp_all
  let ?t0 = "t @ [Ui (SpinnerMessage (progress_message k tot packages m))]"
  let ?r = "exec_result e ?t0 (group_command g)"
  let ?t1 = "?t0 @ [Exec (group_command g) ?r]"
  have up: "upgradePackages e m (map name packages) ?t0 =
      (case ?r of Inl x \<Rightarrow> Inl x | Inr out \<Rightarrow> Inr (), ?t1)"
    using upgradePackages_group[OF ne, of e ?t0] g by simp
  show ?case
  proof (cases ?r)
    case (Inr out)
    from Cons.IH[OF rest, of "k + length packages" ?t1]
    obtain n d where "run_upgrade_loop e tot groups (k + length packages) ?t1 = (n, ?t1 @ d)"
      "execs d = map group_command groups" "\<not> user_aborted d" by blast
    then have "run_upgrade_loop e tot (g # groups) k t =
        (n, t @ ([Ui (SpinnerMessage (progress_message k tot packages m)),
                  Exec (group_command g) ?r] @ d))
      \<and> execs ([Ui (SpinnerMessage (progress_message k tot packages m)),
                Exec (group_command g) ?r] @ d) = map group_command (g # groups)
      \<and> \<not> user_aborted ([Ui (SpinnerMessage (progress_message k tot packages m)),
                Exec (group_command g) ?r] @ d)"
      using up Inr g by simp
    then show ?thesis by blast
  next
    case (Inl x)
    let ?t2 = "?t1 @ [Ui (SpinnerStop (lit ''Failed to upgrade packages via '' @ pm_string m)),
                      Ui (LogError (pm_string m @ lit '': '' @ error_string x))]"
    from Cons.IH[OF rest, of k ?t2]
    obtain n d where "run_upgrade_loop e tot groups k ?t2 = (n, ?t2 @ d)"
      "execs d = map group_command groups" "\<not> user_aborted d" by blast
    then have "run_upgrade_loop e tot (g # groups) k t =
        (n, t @ ([Ui (SpinnerMessage (progress_message k tot packages m)),
                  Exec (group_command g) ?r,
                  Ui (SpinnerStop (lit ''Failed to upgrade packages via '' @ pm_string m)),
                  Ui (LogError (pm_string m @ lit '': '' @ error_string x))] @ d))
      \<and> execs ([Ui (SpinnerMessage (progress_message k tot packages m)),
                  Exec (group_command g) ?r,
                  Ui (SpinnerStop (lit ''Failed to upgrade packages via '' @ pm_string m)),
                  Ui (LogError (pm_string m @ lit '': '' @ error_string x))] @ d)
          = map group_command (g # groups)
      \<and> \<not> user_aborted ([Ui (SpinnerMessage (progress_message k tot packages m)),
                  Exec (group_command g) ?r,
                  Ui (SpinnerStop (lit ''Failed to upgrade packages via '' @ pm_string m)),
                  Ui (LogError (pm_string m @ lit '': '' @ error_string x))] @ d)"
      using up Inl g by simp
    then show ?thesis by blast
  qed
qed

text \<open>
  The loop of \<open>execute\<close> does the same; its list of failures has one line for every
  command that failed, naming the manager and the error, and its count adds up the groups
  whose command succeeded.
\<close>

lemma execute_upgrade_loop_trace:
  assumes "\<forall>g \<in> set groups. snd g \<noteq> []"
  shows "\<exists>d. execute_upgrade_loop e tot groups k failures t =
              ((k + upgraded_count groups (exec_results d),
                failures @ failure_lines groups (exec_results d)), t @ d)
           \<and> execs d = map group_command groups \<and> \<not> user_aborted d"
  using assms
proof (induction groups arbitrary: k failures t)
  case Nil
  then show ?case by simp
next
  case (Cons g groups)
  obtain m packages where g: "g = (m, packages)" by (cases g)
  from Cons.prems have ne: "snd g \<noteq> []" and rest: "\<forall>g \<in> set groups. snd g \<noteq> []" by simp_all
  let ?t0 = "t @ [Ui (SpinnerUpdate (progress_message k tot packages m))]"
  let ?r = "exec_result e ?t0 (group_command g)"
  let ?t1 = "?t0 @ [Exec (group_command g) ?r]"
  have up: "upgradePackages e m (map name packages) ?t0 =
      (case ?r of Inl x \<Rightarrow> Inl x | Inr out \<Rightarrow> Inr (), ?t1)"
    using upgradePackages_group[OF ne, of e ?t0] g by simp
  show ?case
  proof (cases ?r)
    case (Inr out)
    from Cons.IH[OF rest, of "k + length packages" failures ?t1]
    obtain d where "execute_upgrade_loop e tot groups (k + length packages) failures ?t1 =
        ((k + length packages + upgraded_count groups (exec_results d),
          failures @ failure_lines groups (exec_results d)), ?t1 @ d)"
      "execs d = map group_command groups" "\<not> user_aborted d" by blast
    then have "execute_upgrade_loop e tot (g # groups) k failures t =
        ((k + upgraded_count (g # groups)
               (exec_results ([Ui (SpinnerUpdate (progress_message k tot packages m)),
                               Exec (group_command g) ?r] @ d)),
          failures @ failure_lines (g # groups)
               (exec_results ([Ui (SpinnerUpdate (progress_message k tot packages m)),
                               Exec (group_command g) ?r] @ d))),
         t @ ([Ui (SpinnerUpdate (progress_message k tot packages m)),
               Exec (group_command g) ?r] @ d))
      \<and> execs ([Ui (SpinnerUpdate (progress_message k tot packages m)),
                Exec (group_command g) ?r] @ d) = map group_command (g # groups)
      \<and> \<not> user_aborted ([Ui (SpinnerUpdate (progress_message k tot packages m)),
                Exec (group_command g) ?r] @ d)"
      using up Inr g by simp
    then show ?thesis by blast
  next
    case (Inl x)
    let ?t2 = "?t1 @ [Ui (SpinnerFail (lit ''Failed to upgrade packages via '' @ pm_string m))]"
    let ?fs = "failures @ [pm_string m @ lit '': '' @ error_string x]"
    from Cons.IH[OF rest, of k ?fs ?t2]
    obtain d where "execute_upgrade_loop e tot groups k ?fs ?t2 =
        ((k + upgraded_count groups (exec_results d),
          ?fs @ failure_lines groups (exec_results d)), ?t2 @ d)"
      "execs d = map group_command groups" "\<not> user_aborted d" by blast
    then have "execute_upgrade_loop e tot (g # groups) k failures t =
        ((k + upgraded_count (g # groups)
               (exec_results ([Ui (SpinnerUpdate (progress_message k tot packages m)),
                               Exec (group_command g) ?r,
                               Ui (SpinnerFail (lit ''Failed to upgrade packages via '' @ pm_string m))] @ d)),
          failures @ failure_lines (g # groups)
               (exec_results ([Ui (SpinnerUpdate (progress_message k tot packages m)),
                               Exec (group_command g) ?r,
                               Ui (SpinnerFail (lit ''Failed to upgrade packages via '' @ pm_string m))] @ d))),
         t @ ([Ui (SpinnerUpdate (progress_message k tot packages m)),
               Exec (group_command g) ?r,
               Ui (SpinnerFail (lit ''Failed to upgrade packages via '' @ pm_string m))] @ d))
      \<and> execs ([Ui (SpinnerUpdate (progress_message k tot packages m)),
               Exec (group_command g) ?r,
               Ui (SpinnerFail (lit ''Failed to upgrade packages via '' @ pm_string m))] @ d)
          = map group_command (g # groups)
      \<and> \<not> user_aborted ([Ui (SpinnerUpdate (progress_message k tot packages m)),
               Exec (group_command g) ?r,
               Ui (SpinnerFail (lit ''Failed to upgrade packages via '' @ pm_string m))] @ d)"
      using up Inl g by simp
    then show ?thesis by blast
  qed
qed

subsection \<open>The states of \<open>run\<close>\<close>

lemma run_upgrading_trace:
  "\<exists>d. run_upgrading e selected t =
          (Return (),
           t @ d @ [Ui (SpinnerStop (lit ''All packages upgraded'')),
                    Ui (Outro (paint e Green (lit ''Successfully upgraded all selected packages!'')))])
       \<and> execs d = map group_command (groupByPM selected) \<and> \<not> user_aborted d"
proof -
  have ne: "\<forall>g \<in> set (groupByPM selected). snd g \<noteq> []"
    using groupByPM_groups by blast
  from run_upgrade_loop_trace[OF ne, of e "length selected" 0
      "t @ [Ui (SpinnerStart (lit ''Upgrading packages''))]"]
  obtain n d where
    loop: "run_upgrade_loop e (length selected) (groupByPM selected) 0
             (t @ [Ui (SpinnerStart (lit ''Upgrading packages''))])
           = (n, (t @ [Ui (SpinnerStart (lit ''Upgrading packages''))]) @ d)"
    and ex: "execs d = map group_command (groupByPM selected)" and na: "\<not> user_aborted d"
    by blast
  let ?d = "Ui (SpinnerStart (lit ''Upgrading packages'')) # d"
  have "run_upgrading e selected t =
          (Return (),
           t @ ?d @ [Ui (SpinnerStop (lit ''All packages upgraded'')),
                     Ui (Outro (paint e Green (lit ''Successfully upgraded all selected packages!'')))])"
    using loop by (simp add: run_upgrading_def)
  moreover have "execs ?d = map group_command (groupByPM selected)" using ex by simp
  moreover have "\<not> user_aborted ?d" using na by simp
  ultimately show ?thesis by blast
qed




lemma detectPackageManagers_result:
  "\<exists>available d. detectPackageManagers e t = (Inr available, t @ d)
     \<and> execs d = map (\<lambda>m. lit ''which '' @ pm_string m) [npm, pnpm, yarn, bun]
     \<and> set available = {m. \<exists>out. Exec (lit ''which '' @ pm_string m) (Inr out) \<in> set d}
     \<and> distinct available
     \<and> (\<forall>ev \<in> set d. \<exists>m \<in> set [npm, pnpm, yarn, bun]. \<exists>r. ev = Exec (lit ''which '' @ pm_string m) r)"
proof -
  have "distinct [npm, pnpm, yarn, bun]" by simp
  from detect_loop_exact[OF this, of e "[]" t] show ?thesis
    unfolding detectPackageManagers_def by (simp only: append_Nil) blast
qed



subsection \<open>The states of \<open>execute\<close>\<close>

lemma failed_execs_append [simp]: "failed_execs (t @ u) = failed_execs t @ failed_execs u"
  by (induction t rule: failed_execs.induct) simp_all

lemma failed_execs_results:
  "length (failed_execs t) = length (filter isl (exec_results t))"
  by (induction t rule: failed_execs.induct) simp_all

lemma length_exec_results: "length (exec_results t) = length (execs t)"
  by (induction t rule: execs.induct) simp_all

lemma length_failure_lines:
  "length rs = length groups \<Longrightarrow> length (failure_lines groups rs) = length (filter isl rs)"
  by (induction groups rs rule: failure_lines.induct) simp_all

lemma upgraded_count_all:
  "length rs = length groups \<Longrightarrow> filter isl rs = [] \<Longrightarrow>
   upgraded_count groups rs = sum_list (map (\<lambda>g. length (snd g)) groups)"
  by (induction groups rs rule: upgraded_count.induct) simp_all

text \<open>
  The report of \<open>execute\<close>: success iff no command of a group failed; the failures list
  has the line of every failed group.
\<close>

lemma execute_upgrading_report:
  "\<exists>r d. execute_upgrading e selected t = (Inr r, t @ d)
     \<and> execs d = map group_command (groupByPM selected)
     \<and> \<not> user_aborted d
     \<and> success r = (failed_execs d = [])
     \<and> failed r = Some (failure_lines (groupByPM selected) (exec_results d))
     \<and> length (failure_lines (groupByPM selected) (exec_results d)) = length (failed_execs d)
     \<and> upgraded r = Some (upgraded_count (groupByPM selected) (exec_results d))
     \<and> total r = Some (length selected)"
proof -
  have ne: "\<forall>g \<in> set (groupByPM selected). snd g \<noteq> []"
    using groupByPM_groups by blast
  let ?t0 = "t @ [Ui (SpinnerStart (lit ''Upgrading packages''))]"
  from execute_upgrade_loop_trace[OF ne, of e "length selected" 0 "[]" ?t0]
  obtain d where
    loop: "execute_upgrade_loop e (length selected) (groupByPM selected) 0 [] ?t0 =
        ((0 + upgraded_count (groupByPM selected) (exec_results d),
          [] @ failure_lines (groupByPM selected) (exec_results d)), ?t0 @ d)"
    and ex: "execs d = map group_command (groupByPM selected)" and na: "\<not> user_aborted d"
    by blast
  let ?n = "upgraded_count (groupByPM selected) (exec_results d)"
  let ?fs = "failure_lines (groupByPM selected) (exec_results d)"
  let ?last = "Ui (if ?n = length selected
                   then SpinnerSucceed (lit ''All packages upgraded'')
                   else SpinnerFail (lit ''Upgrade completed with errors''))"
  let ?d = "Ui (SpinnerStart (lit ''Upgrading packages'')) # d @ [?last]"
  let ?r = "\<lparr>success = (length ?fs = 0), upgraded = Some ?n, total = Some (length selected),
             failed = Some ?fs, message = summary_message ?n (length selected) ?fs\<rparr>"
  have len: "length (exec_results d) = length (groupByPM selected)"
    using ex by (simp add: length_exec_results)
  have lf: "length ?fs = length (failed_execs d)"
    using length_failure_lines[OF len] by (simp add: failed_execs_results)
  have "execute_upgrading e selected t = (Inr ?r, t @ ?d)"
    using loop by (simp add: execute_upgrading_def)
  moreover have "execs ?d = map group_command (groupByPM selected)" using ex by simp
  moreover have "\<not> user_aborted ?d" using na by simp
  moreover have "success ?r = (failed_execs ?d = [])" using lf by simp
  moreover have "failed ?r = Some (failure_lines (groupByPM selected) (exec_results ?d))" by simp
  moreover have "length (failure_lines (groupByPM selected) (exec_results ?d)) = length (failed_execs ?d)"
    using lf by simp
  moreover have "upgraded ?r = Some (upgraded_count (groupByPM selected) (exec_results ?d))" by simp
  moreover have "total ?r = Some (length selected)" by simp
  ultimately show ?thesis by blast
qed

lemma promptPackageSelection_result:
  "\<exists>selected d. promptPackageSelection e packages t = (Inr selected, t @ d)
     \<and> execs d = [] \<and> (user_aborted d \<longleftrightarrow> selected = [])"
proof (cases "multiselect_answer e t (lit ''Select packages to upgrade:'') packages")
  case SelectCancelled
  then show ?thesis
    by (simp add: promptPackageSelection_def multiselect_def)
next
  case (Selected selected)
  let ?t1 = "t @ [Multiselect (lit ''Select packages to upgrade:'') packages (Selected selected)]"
  show ?thesis
  proof (cases "selected = []")
    case True
    then show ?thesis using Selected
      by (simp add: promptPackageSelection_def multiselect_def)
  next
    case False
    show ?thesis
    proof (cases "confirm_answer e ?t1 (confirm_message (length selected))")
      case ConfirmCancelled
      then show ?thesis using Selected False
        by (simp add: promptPackageSelection_def multiselect_def confirm_def)
    next
      case (Confirmed yes)
      then show ?thesis using Selected False
        by (cases yes) (simp_all add: promptPackageSelection_def multiselect_def confirm_def)
    qed
  qed
qed





subsection \<open>The commands of a run\<close>

lemma upgrade_command_inject: "upgrade_command m x = upgrade_command m' y \<Longrightarrow> m = m'"
  by (cases m; cases m') (simp_all add: lit_def)

lemma distinct_group_commands:
  assumes "distinct (map fst groups)"
  shows "distinct (map group_command groups)"
proof -
  from assms have d: "distinct groups" and i: "inj_on fst (set groups)"
    by (simp_all add: distinct_map)
  have "inj_on group_command (set groups)"
  proof (rule inj_onI)
    fix a b assume a: "a \<in> set groups" and b: "b \<in> set groups"
      and eq: "group_command a = group_command b"
    from eq have "fst a = fst b"
      unfolding group_command_def by (rule upgrade_command_inject)
    with i a b show "a = b" by (auto dest: inj_onD)
  qed
  with d show ?thesis by (simp add: distinct_map)
qed

lemma list_command_inject [simp]: "list_command m = list_command m' \<longleftrightarrow> m = m'"
  by (cases m; cases m') (simp_all add: lit_def)

lemma list_command_not_which [simp]: "list_command m \<noteq> lit ''which '' @ pm_string m'"
  by (cases m; cases m') (simp_all add: lit_def)

lemma list_command_not_probe: "list_command m \<notin> (\<lambda>m. lit ''which '' @ pm_string m) ` S"
  by auto

lemma group_command_is_upgrade [simp]: "is_upgrade_command (group_command g)"
  by (simp add: group_command_def)

text \<open>From the Selecting state on, \<open>run\<close> runs upgrade commands only.\<close>

lemma run_selecting_commands:
  "\<exists>out d. run_selecting e updatable t = (out, t @ d) \<and> list_all is_upgrade_command (execs d)"
proof (cases "multiselect_answer e t (lit ''Select packages to upgrade:'') updatable")
  case SelectCancelled
  then show ?thesis
    by (simp add: run_selecting_def multiselect_def)
next
  case (Selected selected)
  let ?t1 = "t @ [Multiselect (lit ''Select packages to upgrade:'') updatable (Selected selected)]"
  show ?thesis
  proof (cases "selected = []")
    case True
    then show ?thesis using Selected
      by (simp add: run_selecting_def multiselect_def)
  next
    case False
    show ?thesis
    proof (cases "confirm_answer e ?t1 (confirm_message (length selected))")
      case ConfirmCancelled
      then show ?thesis using Selected False
        by (simp add: run_selecting_def multiselect_def confirm_def)
    next
      case (Confirmed yes)
      show ?thesis
      proof (cases yes)
        case False
        then show ?thesis using Selected \<open>selected \<noteq> []\<close> Confirmed
          by (simp add: run_selecting_def multiselect_def confirm_def)
      next
        case True
        let ?t2 = "?t1 @ [Confirm (confirm_message (length selected)) (Confirmed True)]"
        from run_upgrading_trace[of e selected ?t2]
        obtain d where up: "run_upgrading e selected ?t2 =
            (Return (),
             ?t2 @ d @ [Ui (SpinnerStop (lit ''All packages upgraded'')),
                        Ui (Outro (paint e Green (lit ''Successfully upgraded all selected packages!'')))])"
          and ex: "execs d = map group_command (groupByPM selected)" by blast
        let ?d = "[Multiselect (lit ''Select packages to upgrade:'') updatable (Selected selected),
                   Confirm (confirm_message (length selected)) (Confirmed True)] @ d
                  @ [Ui (SpinnerStop (lit ''All packages upgraded'')),
                     Ui (Outro (paint e Green (lit ''Successfully upgraded all selected packages!'')))]"
        have "run_selecting e updatable t = (Return (), t @ ?d)"
          using Selected \<open>selected \<noteq> []\<close> Confirmed True up
          by (simp add: run_selecting_def multiselect_def confirm_def)
        moreover have "list_all is_upgrade_command (execs ?d)"
          using ex by (simp add: list_all_iff)
        ultimately show ?thesis by blast
      qed
    qed
  qed
qed

lemma run_checking_commands:
  "\<exists>out d. run_checking e allPackages t = (out, t @ d) \<and> list_all is_upgrade_command (execs d)"
proof -
  obtain r d1 where chk: "check_updates e allPackages [] t = (r, t @ d1)"
    and ex1: "execs d1 = []"
    using check_updates_result by blast
  show ?thesis
  proof (cases r)
    case (Inl x)
    then have "run_checking e allPackages t = (Throw x, t @ d1)"
      using chk by (simp add: run_checking_def)
    with ex1 show ?thesis by force
  next
    case (Inr packagesWithLatest)
    let ?upd = "filter hasUpdate packagesWithLatest"
    show ?thesis
    proof (cases "?upd = []")
      case True
      let ?d = "d1 @ [Ui (SpinnerStop (lit ''Check complete'')),
                      Ui (Outro (paint e Green (lit ''All packages are up to date!'')))]"
      have "run_checking e allPackages t = (Exit 0, t @ ?d)"
        using chk Inr True by (simp add: run_checking_def)
      moreover have "list_all is_upgrade_command (execs ?d)" using ex1 by simp
      ultimately show ?thesis by blast
    next
      case False
      let ?t1 = "(t @ d1) @ [Ui (SpinnerStop (found_updates_message e (length ?upd)))]"
      from run_selecting_commands[of e ?upd ?t1]
      obtain out d2 where sel: "run_selecting e ?upd ?t1 = (out, ?t1 @ d2)"
        and ex2: "list_all is_upgrade_command (execs d2)" by blast
      let ?d = "d1 @ [Ui (SpinnerStop (found_updates_message e (length ?upd)))] @ d2"
      have "run_checking e allPackages t = (out, t @ ?d)"
        using chk Inr False sel by (simp add: run_checking_def)
      moreover have "list_all is_upgrade_command (execs ?d)" using ex1 ex2 by simp
      ultimately show ?thesis by blast
    qed
  qed
qed

lemma run_enumerating_commands:
  "\<exists>out d rest. run_enumerating e packageManagers t = (out, t @ d)
     \<and> execs d = map list_command packageManagers @ rest \<and> list_all is_upgrade_command rest"
proof -
  obtain ps d1 where f: "fetch_packages e packageManagers [] t = (Inr ([] @ ps), t @ d1)"
    and ex1: "execs d1 = map list_command packageManagers"
    using fetch_packages_result by blast
  show ?thesis
  proof (cases "ps = []")
    case True
    let ?d = "d1 @ [Ui (SpinnerStop (lit ''No global packages found'')),
                    Ui (Outro (paint e Yellow (lit ''No global packages found to update'')))]"
    have "run_enumerating e packageManagers t = (Exit 0, t @ ?d)"
      using f True by (simp add: run_enumerating_def)
    moreover have "execs ?d = map list_command packageManagers @ []" using ex1 by simp
    moreover have "list_all is_upgrade_command []" by simp
    ultimately show ?thesis by blast
  next
    case False
    let ?t1 = "(t @ d1) @ [Ui (SpinnerStop (found_packages_message e (length ps))),
                           Ui (SpinnerStart (lit ''Checking for updates''))]"
    from run_checking_commands[of e ps ?t1]
    obtain out d2 where c: "run_checking e ps ?t1 = (out, ?t1 @ d2)"
      and ex2: "list_all is_upgrade_command (execs d2)" by blast
    let ?d = "d1 @ [Ui (SpinnerStop (found_packages_message e (length ps))),
                    Ui (SpinnerStart (lit ''Checking for updates''))] @ d2"
    have "run_enumerating e packageManagers t = (out, t @ ?d)"
      using f False c by (simp add: run_enumerating_def)
    moreover have "execs ?d = map list_command packageManagers @ execs d2" using ex1 by simp
    ultimately show ?thesis using ex2 by blast
  qed
qed

text \<open>
  A list command that \<open>run\<close> runs belongs to a manager whose probe succeeded in the same
  run.
\<close>

lemma run_lists_detected_only:
  assumes "run e t = (out, t @ d)" and "list_command m \<in> set (execs d)"
  shows "\<exists>answer. Exec (lit ''which '' @ pm_string m) (Inr answer) \<in> set d"
proof -
  let ?intro = "[Ui ConsoleClear,
                 Ui (Intro (paint e BgCyan (paint e Black (lit '' @xystack/up '')))),
                 Ui (SpinnerStart (lit ''Detecting package managers''))]"
  obtain pms d1 where det: "detectPackageManagers e (t @ ?intro) = (Inr pms, (t @ ?intro) @ d1)"
    and ex1: "execs d1 = map (\<lambda>m. lit ''which '' @ pm_string m) [npm, pnpm, yarn, bun]"
    and av: "set pms = {m. \<exists>answer. Exec (lit ''which '' @ pm_string m) (Inr answer) \<in> set d1}"
    using detectPackageManagers_result[of e "t @ ?intro"] by blast
  have nw: "list_command m \<notin> set (execs d1)"
    by (simp only: ex1 set_map list_command_not_probe not_False_eq_True)
  show ?thesis
  proof (cases "pms = []")
    case True
    let ?d = "?intro @ d1 @ [Ui (SpinnerStop (lit ''No package managers found'')),
         Ui (Outro (paint e Red
           (lit ''No package managers (npm, pnpm, yarn, bun) found on your system'')))]"
    have "run e t = (Exit 1, t @ ?d)"
      using det True by (simp add: run_def)
    with assms(1) have "d = ?d" by simp
    then have "execs d = execs d1" by simp
    with assms(2) nw show ?thesis by simp
  next
    case False
    let ?t1 = "((t @ ?intro) @ d1) @ [Ui (SpinnerStop (found_managers_message e pms)),
                                     Ui (SpinnerStart (lit ''Fetching global packages''))]"
    from run_enumerating_commands[of e pms ?t1]
    obtain out' d2 rest where en: "run_enumerating e pms ?t1 = (out', ?t1 @ d2)"
      and ex2: "execs d2 = map list_command pms @ rest"
      and up: "list_all is_upgrade_command rest" by blast
    let ?d = "?intro @ d1 @ [Ui (SpinnerStop (found_managers_message e pms)),
                             Ui (SpinnerStart (lit ''Fetching global packages''))] @ d2"
    have "run e t = (out', t @ ?d)"
      using det False en by (simp add: run_def)
    with assms(1) have d: "d = ?d" by simp
    have "list_command m \<notin> set rest"
      using up list_command_not_upgrade[of m] by (auto simp: list_all_iff)
    from d have "execs d = execs d1 @ map list_command pms @ rest"
      using ex2 by simp
    with assms(2) nw \<open>list_command m \<notin> set rest\<close> have "m \<in> set pms" by auto
    with av obtain answer where "Exec (lit ''which '' @ pm_string m) (Inr answer) \<in> set d1"
      by blast
    with d show ?thesis by auto
  qed
qed


text \<open>The same for \<open>execute\<close>.\<close>

lemma execute_selecting_commands:
  "\<exists>out d. execute_selecting e all updatable t = (out, t @ d)
     \<and> list_all is_upgrade_command (execs d)"
proof -
  have up: "\<exists>out d. execute_upgrading e selected t' = (out, t' @ d)
      \<and> list_all is_upgrade_command (execs d)" for selected t'
  proof -
    from execute_upgrading_report[of e selected t']
    obtain r d where "execute_upgrading e selected t' = (Inr r, t' @ d)"
      "execs d = map group_command (groupByPM selected)" by blast
    then have "execute_upgrading e selected t' = (Inr r, t' @ d)
        \<and> list_all is_upgrade_command (execs d)"
      by (simp add: list_all_iff)
    then show ?thesis by blast
  qed
  show ?thesis
  proof (cases "all = Some True")
    case True
    show ?thesis
    proof (cases "updatable = []")
      case True
      then have "execute_selecting e all updatable t = (Inr no_selection_result, t @ [])"
        using \<open>all = Some True\<close> by (simp add: execute_selecting_def no_selection_result_def)
      moreover have "list_all is_upgrade_command (execs [])" by simp
      ultimately show ?thesis by blast
    next
      case False
      from up[of updatable t] obtain out d where
        "execute_upgrading e updatable t = (out, t @ d)" "list_all is_upgrade_command (execs d)"
        by blast
      then have "execute_selecting e all updatable t = (out, t @ d)
          \<and> list_all is_upgrade_command (execs d)"
        using \<open>all = Some True\<close> False by (simp add: execute_selecting_def)
      then show ?thesis by blast
    qed
  next
    case False
    from promptPackageSelection_result[of e updatable t]
    obtain selected d1 where pr: "promptPackageSelection e updatable t = (Inr selected, t @ d1)"
      and ex1: "execs d1 = []" by blast
    show ?thesis
    proof (cases "selected = []")
      case True
      then have "execute_selecting e all updatable t = (Inr no_selection_result, t @ d1)"
        using False pr by (simp add: execute_selecting_def no_selection_result_def)
      moreover have "list_all is_upgrade_command (execs d1)" using ex1 by simp
      ultimately show ?thesis by blast
    next
      case sel: False
      from up[of selected "t @ d1"] obtain out d2 where
        u: "execute_upgrading e selected (t @ d1) = (out, (t @ d1) @ d2)"
        and ex2: "list_all is_upgrade_command (execs d2)" by blast
      have "execute_selecting e all updatable t = (out, t @ (d1 @ d2))"
        using False pr sel u by (simp add: execute_selecting_def)
      moreover have "list_all is_upgrade_command (execs (d1 @ d2))" using ex1 ex2 by simp
      ultimately show ?thesis by blast
    qed
  qed
qed

lemma execute_checking_commands:
  "\<exists>out d. execute_checking e all allPackages t = (out, t @ d)
     \<and> list_all is_upgrade_command (execs d)"
proof -
  obtain r d1 where chk: "check_updates e allPackages [] t = (r, t @ d1)"
    and ex1: "execs d1 = []"
    using check_updates_result by blast
  show ?thesis
  proof (cases r)
    case (Inl x)
    then have "execute_checking e all allPackages t = (Inl x, t @ d1)"
      using chk by (simp add: execute_checking_def)
    with ex1 show ?thesis by force
  next
    case (Inr packagesWithLatest)
    let ?upd = "filter hasUpdate packagesWithLatest"
    show ?thesis
    proof (cases "?upd = []")
      case True
      let ?d = "d1 @ [Ui (SpinnerSucceed (lit ''All packages are up to date!''))]"
      have "\<exists>out. execute_checking e all allPackages t = (out, t @ ?d)"
        using chk Inr True by (simp add: execute_checking_def)
      moreover have "list_all is_upgrade_command (execs ?d)" using ex1 by simp
      ultimately show ?thesis by blast
    next
      case False
      let ?t1 = "(t @ d1) @ [Ui (SpinnerSucceed (found_updates_message e (length ?upd)))]"
      from execute_selecting_commands[of e all ?upd ?t1]
      obtain out d2 where sel: "execute_selecting e all ?upd ?t1 = (out, ?t1 @ d2)"
        and ex2: "list_all is_upgrade_command (execs d2)" by blast
      let ?d = "d1 @ [Ui (SpinnerSucceed (found_updates_message e (length ?upd)))] @ d2"
      have "execute_checking e all allPackages t = (out, t @ ?d)"
        using chk Inr False sel by (simp add: execute_checking_def)
      moreover have "list_all is_upgrade_command (execs ?d)" using ex1 ex2 by simp
      ultimately show ?thesis by blast
    qed
  qed
qed

lemma execute_enumerating_commands:
  "\<exists>out d rest. execute_enumerating e all packageManagers t = (out, t @ d)
     \<and> execs d = map list_command packageManagers @ rest \<and> list_all is_upgrade_command rest"
proof -
  obtain ps d1 where f: "fetch_packages e packageManagers [] t = (Inr ([] @ ps), t @ d1)"
    and ex1: "execs d1 = map list_command packageManagers"
    using fetch_packages_result by blast
  show ?thesis
  proof (cases "ps = []")
    case True
    let ?d = "d1 @ [Ui (SpinnerSucceed (lit ''No global packages found''))]"
    have "\<exists>out. execute_enumerating e all packageManagers t = (out, t @ ?d)"
      using f True by (simp add: execute_enumerating_def)
    moreover have "execs ?d = map list_command packageManagers @ []" using ex1 by simp
    moreover have "list_all is_upgrade_command []" by simp
    ultimately show ?thesis by blast
  next
    case False
    let ?t1 = "(t @ d1) @ [Ui (SpinnerSucceed (found_packages_message e (length ps))),
                           Ui (SpinnerStart (lit ''Checking for updates''))]"
    from execute_checking_commands[of e all ps ?t1]
    obtain out d2 where c: "execute_checking e all ps ?t1 = (out, ?t1 @ d2)"
      and ex2: "list_all is_upgrade_command (execs d2)" by blast
    let ?d = "d1 @ [Ui (SpinnerSucceed (found_packages_message e (length ps))),
                    Ui (SpinnerStart (lit ''Checking for updates''))] @ d2"
    have "execute_enumerating e all packageManagers t = (out, t @ ?d)"
      using f False c by (simp add: execute_enumerating_def)
    moreover have "execs ?d = map list_command packageManagers @ execs d2" using ex1 by simp
    ultimately show ?thesis using ex2 by blast
  qed
qed

lemma execute_lists_detected_only:
  assumes "execute e all t = (out, t @ d)" and "list_command m \<in> set (execs d)"
  shows "\<exists>answer. Exec (lit ''which '' @ pm_string m) (Inr answer) \<in> set d"
proof -
  let ?intro = "[Ui (SpinnerStart (lit ''Detecting package managers''))]"
  obtain pms d1 where det: "detectPackageManagers e (t @ ?intro) = (Inr pms, (t @ ?intro) @ d1)"
    and ex1: "execs d1 = map (\<lambda>m. lit ''which '' @ pm_string m) [npm, pnpm, yarn, bun]"
    and av: "set pms = {m. \<exists>answer. Exec (lit ''which '' @ pm_string m) (Inr answer) \<in> set d1}"
    using detectPackageManagers_result[of e "t @ ?intro"] by blast
  have nw: "list_command m \<notin> set (execs d1)"
    by (simp only: ex1 set_map list_command_not_probe not_False_eq_True)
  show ?thesis
  proof (cases "pms = []")
    case True
    let ?d = "?intro @ d1 @ [Ui (SpinnerFail (lit ''No package managers found''))]"
    have "\<exists>out'. execute e all t = (out', t @ ?d)"
      using det True by (simp add: execute_def)
    with assms(1) have "d = ?d" by auto
    then have "execs d = execs d1" by simp
    with assms(2) nw show ?thesis by simp
  next
    case False
    let ?t1 = "((t @ ?intro) @ d1) @ [Ui (SpinnerSucceed (found_managers_message e pms)),
                                     Ui (SpinnerStart (lit ''Fetching global packages''))]"
    from execute_enumerating_commands[of e all pms ?t1]
    obtain out' d2 rest where en: "execute_enumerating e all pms ?t1 = (out', ?t1 @ d2)"
      and ex2: "execs d2 = map list_command pms @ rest"
      and up: "list_all is_upgrade_command rest" by blast
    let ?d = "?intro @ d1 @ [Ui (SpinnerSucceed (found_managers_message e pms)),
                             Ui (SpinnerStart (lit ''Fetching global packages''))] @ d2"
    have "execute e all t = (out', t @ ?d)"
      using det False en by (simp add: execute_def)
    with assms(1) have d: "d = ?d" by simp
    have "list_command m \<notin> set rest"
      using up list_command_not_upgrade[of m] by (auto simp: list_all_iff)
    from d have "execs d = execs d1 @ map list_command pms @ rest"
      using ex2 by simp
    with assms(2) nw \<open>list_command m \<notin> set rest\<close> have "m \<in> set pms" by auto
    with av obtain answer where "Exec (lit ''which '' @ pm_string m) (Inr answer) \<in> set d1"
      by blast
    with d show ?thesis by auto
  qed
qed

section \<open>Evaluation on the sample environment\<close>

lemma sample_env_simps:
  "exec_result sample_env t c =
     (if c = lit ''which pnpm'' then Inr (lit ''/usr/bin/pnpm'')
      else if c = lit ''pnpm list -g --depth 0'' then Inr (lit ''foo 1.0.0'')
      else Inl (Failure (lit ''Error: Command failed'')))"
  "fetch_result sample_env t url =
     Inr \<lparr>ok = True, json = Inr (Obj [(lit ''version'', Str (lit ''1.1.0''))])\<rparr>"
  "multiselect_answer sample_env t msg options = Selected options"
  "confirm_answer sample_env t msg = Confirmed True"
  "JSON_parse sample_env s = None"
  "paint sample_env col s = s"
  by (simp_all add: sample_env_def)


text \<open>Any environment that answers commands, lookups and colours as the sample does.\<close>

lemma detect_sample:
  assumes "exec_result e = exec_result sample_env"
  shows "detectPackageManagers e t =
     (Inr [pnpm], t @ [Exec (lit ''which npm'') (Inl (Failure (lit ''Error: Command failed''))),
                      Exec (lit ''which pnpm'') (Inr (lit ''/usr/bin/pnpm'')),
                      Exec (lit ''which yarn'') (Inl (Failure (lit ''Error: Command failed''))),
                      Exec (lit ''which bun'') (Inl (Failure (lit ''Error: Command failed'')))])"
  by (simp add: detectPackageManagers_def commandExists_def execAsync_def assms sample_env_simps lit_def)

lemma list_sample:
  assumes "exec_result e = exec_result sample_env"
  shows "getGlobalPackages e pnpm t =
     (Inr [foo_listed], t @ [Exec (lit ''pnpm list -g --depth 0'') (Inr (lit ''foo 1.0.0''))])"
  by (simp add: getGlobalPackages_def execAsync_def assms sample_env_simps lit_def nonblank_lines_def
      trim_def is_space_def is_line_terminator_def clean_line_def is_tree_char_def
      match_name_space_version_def no_line_terminator_def foo_listed_def)

lemma latest_sample:
  assumes "fetch_result e = fetch_result sample_env"
  shows "getLatestVersion e n t =
     (Inr (Str (lit ''1.1.0'')),
      t @ [Fetch (lit ''https://registry.npmjs.org/'' @ n @ lit ''/latest'')
             (Inr \<lparr>ok = True, json = Inr (Obj [(lit ''version'', Str (lit ''1.1.0''))])\<rparr>)])"
  by (simp add: getLatestVersion_def fetch_def assms sample_env_simps lit_def)

lemma compare_sample: "compareVersions (Str (lit ''1.0.0'')) (Str (lit ''1.1.0'')) = Inr True"
  by (simp add: version_eval)

lemma check_sample:
  assumes "fetch_result e = fetch_result sample_env"
  shows "check_updates e [foo_listed] [] t =
     (Inr [foo_update],
      t @ [Fetch (lit ''https://registry.npmjs.org/foo/latest'')
             (Inr \<lparr>ok = True, json = Inr (Obj [(lit ''version'', Str (lit ''1.1.0''))])\<rparr>)])"
  by (simp add: latest_sample[OF assms] foo_listed_def foo_update_def lit_def
      compare_sample[unfolded lit_def, simplified])

lemma groupByPM_single: "groupByPM [p] = [(pm p, [p])]"
  by (simp add: groupByPM_def group_step_def)

lemmas message_defs = found_managers_message_def found_packages_message_def
  found_updates_message_def confirm_message_def progress_message_def summary_message_def
  plural_def show_nat.simps

lemma run_sample_prefix:
  assumes "exec_result e = exec_result sample_env" "fetch_result e = fetch_result sample_env"
    "paint e = paint sample_env"
  shows "run e [] = run_selecting e [foo_update] sample_prefix"
proof -
  have 1: "length [foo_listed] \<noteq> 0" "length [pnpm] \<noteq> 0" by simp_all
  have 2: "hasUpdate foo_update" by (simp add: foo_update_def)
  show ?thesis
    unfolding run_def run_enumerating_def run_checking_def
    by (simp add: detect_sample[OF assms(1)] list_sample[OF assms(1)] check_sample[OF assms(2)]
        2 assms(3) sample_env_simps message_defs sample_prefix_def lit_def
        del: check_updates.simps)
qed

lemma run_sample_trace:
  "run sample_env [] =
     (Return (),
      sample_prefix @
      [Multiselect (lit ''Select packages to upgrade:'') [foo_update] (Selected [foo_update]),
       Confirm (lit ''Upgrade 1 package?'') (Confirmed True),
       Ui (SpinnerStart (lit ''Upgrading packages'')),
       Ui (SpinnerMessage (lit ''[1-1/1] Upgrading foo via pnpm'')),
       Exec (lit ''pnpm add -g foo@latest'') (Inl (Failure (lit ''Error: Command failed''))),
       Ui (SpinnerStop (lit ''Failed to upgrade packages via pnpm'')),
       Ui (LogError (lit ''pnpm: Error: Command failed'')),
       Ui (SpinnerStop (lit ''All packages upgraded'')),
       Ui (Outro (lit ''Successfully upgraded all selected packages!''))])"
proof -
  have "run sample_env [] = run_selecting sample_env [foo_update] sample_prefix"
    by (rule run_sample_prefix) simp_all
  also have "\<dots> = (Return (),
      sample_prefix @
      [Multiselect (lit ''Select packages to upgrade:'') [foo_update] (Selected [foo_update]),
       Confirm (lit ''Upgrade 1 package?'') (Confirmed True),
       Ui (SpinnerStart (lit ''Upgrading packages'')),
       Ui (SpinnerMessage (lit ''[1-1/1] Upgrading foo via pnpm'')),
       Exec (lit ''pnpm add -g foo@latest'') (Inl (Failure (lit ''Error: Command failed''))),
       Ui (SpinnerStop (lit ''Failed to upgrade packages via pnpm'')),
       Ui (LogError (lit ''pnpm: Error: Command failed'')),
       Ui (SpinnerStop (lit ''All packages upgraded'')),
       Ui (Outro (lit ''Successfully upgraded all selected packages!''))])"
    by (simp add: run_selecting_def multiselect_def confirm_def run_upgrading_def
        groupByPM_single upgradePackages_def execAsync_def sample_env_simps message_defs
        foo_update_def lit_def)
  finally show ?thesis .
qed


lemma sample_prefix_quiet [simp]:
  "\<not> user_aborted sample_prefix" "upgrade_commands sample_prefix = []"
  by (simp_all add: sample_prefix_def is_upgrade_command_def lit_def)

lemma execute_sample_prefix:
  assumes "exec_result e = exec_result sample_env" "fetch_result e = fetch_result sample_env"
    "paint e = paint sample_env"
  shows "execute e all [] = execute_selecting e all [foo_update] execute_prefix"
proof -
  have 2: "hasUpdate foo_update" by (simp add: foo_update_def)
  show ?thesis
    unfolding execute_def execute_enumerating_def execute_checking_def
    by (simp add: detect_sample[OF assms(1)] list_sample[OF assms(1)] check_sample[OF assms(2)]
        2 assms(3) sample_env_simps message_defs execute_prefix_def lit_def
        del: check_updates.simps)
qed

lemma execute_prefix_quiet [simp]:
  "\<not> user_aborted execute_prefix" "upgrade_commands execute_prefix = []"
  by (simp_all add: execute_prefix_def is_upgrade_command_def lit_def)

text \<open>
  On the sample environment \<open>execute\<close> reports the failed upgrade: no success, nothing
  upgraded out of one, and the failure of pnpm with its error.
\<close>

lemma execute_sample_result:
  "execute sample_env None [] =
     (Inr \<lparr>success = False, upgraded = Some 0, total = Some 1,
            failed = Some [lit ''pnpm: Error: Command failed''],
            message = lit ''Upgraded 0/1 packages. 1 failed.''\<rparr>,
      execute_prefix @
      [Multiselect (lit ''Select packages to upgrade:'') [foo_update] (Selected [foo_update]),
       Confirm (lit ''Upgrade 1 package?'') (Confirmed True),
       Ui (SpinnerStart (lit ''Upgrading packages'')),
       Ui (SpinnerUpdate (lit ''[1-1/1] Upgrading foo via pnpm'')),
       Exec (lit ''pnpm add -g foo@latest'') (Inl (Failure (lit ''Error: Command failed''))),
       Ui (SpinnerFail (lit ''Failed to upgrade packages via pnpm'')),
       Ui (SpinnerFail (lit ''Upgrade completed with errors''))])"
proof -
  have "execute sample_env None [] = execute_selecting sample_env None [foo_update] execute_prefix"
    by (rule execute_sample_prefix) simp_all
  also have "\<dots> =
     (Inr \<lparr>success = False, upgraded = Some 0, total = Some 1,
            failed = Some [lit ''pnpm: Error: Command failed''],
            message = lit ''Upgraded 0/1 packages. 1 failed.''\<rparr>,
      execute_prefix @
      [Multiselect (lit ''Select packages to upgrade:'') [foo_update] (Selected [foo_update]),
       Confirm (lit ''Upgrade 1 package?'') (Confirmed True),
       Ui (SpinnerStart (lit ''Upgrading packages'')),
       Ui (SpinnerUpdate (lit ''[1-1/1] Upgrading foo via pnpm'')),
       Exec (lit ''pnpm add -g foo@latest'') (Inl (Failure (lit ''Error: Command failed''))),
       Ui (SpinnerFail (lit ''Failed to upgrade packages via pnpm'')),
       Ui (SpinnerFail (lit ''Upgrade completed with errors''))])"
    by (simp add: execute_selecting_def promptPackageSelection_def multiselect_def confirm_def
        execute_upgrading_def groupByPM_single upgradePackages_def execAsync_def
        sample_env_simps message_defs foo_update_def lit_def)
  finally show ?thesis .
qed


section \<open>The claims\<close>

text \<open>
  Claim C8: \<open>detectPackageManagers\<close> never fails; it probes each of the four candidates
  once (\<open>which npm\<close>, \<open>which pnpm\<close>, \<open>which yarn\<close>, \<open>which bun\<close>) and returns exactly the
  managers whose probe succeeded, without duplicates. A probe that errors only leaves its
  manager out.
\<close>

theorem detectPackageManagers_exact:
  "\<exists>available d. detectPackageManagers e t = (Inr available, t @ d)
     \<and> execs d = map (\<lambda>m. lit ''which '' @ pm_string m) [npm, pnpm, yarn, bun]
     \<and> set available = {m. \<exists>out. Exec (lit ''which '' @ pm_string m) (Inr out) \<in> set d}
     \<and> distinct available"
  using detectPackageManagers_result[of e t] by blast

theorem detectPackageManagers_exact_witness:
  "fst (detectPackageManagers sample_env []) = Inr [pnpm]
   \<and> (\<exists>available d. detectPackageManagers sample_env [] = (Inr available, [] @ d)
        \<and> execs d = map (\<lambda>m. lit ''which '' @ pm_string m) [npm, pnpm, yarn, bun]
        \<and> set available = {m. \<exists>out. Exec (lit ''which '' @ pm_string m) (Inr out) \<in> set d}
        \<and> distinct available)"
proof -
  have "fst (detectPackageManagers sample_env []) = Inr [pnpm]"
    by (simp add: detect_sample)
  with detectPackageManagers_exact[of sample_env "[]"] show ?thesis by blast
qed

text \<open>
  Claim C9: for every manager, \<open>upgradePackages\<close> with an empty list of names returns at
  once and leaves the trace as it was: no command is run.
\<close>

theorem upgradePackages_empty_is_noop:
  "upgradePackages e m [] t = (Inr (), t)"
  by (simp add: upgradePackages_def)

theorem upgradePackages_empty_is_noop_witness:
  "upgradePackages sample_env yarn [] [] = (Inr (), [])
   \<and> execs (snd (upgradePackages sample_env yarn [] [])) = []"
  using upgradePackages_empty_is_noop[of sample_env yarn "[]"] by simp

text \<open>
  Claim C4: for every manager, when the list command fails, \<open>getGlobalPackages\<close> returns
  the empty sequence instead of the failure; the value is the one returned for a listing
  that succeeds and holds no package.
\<close>

theorem getGlobalPackages_failed_listing_is_empty:
  assumes "exec_result e t (list_command m) = Inl x"
  shows "getGlobalPackages e m t = (Inr [], t @ [Exec (list_command m) (Inl x)])
         \<and> (exec_result e' t' (list_command m) = Inr out \<and> parse_listing e' m out = Inr []
              \<longrightarrow> fst (getGlobalPackages e' m t') = fst (getGlobalPackages e m t))"
  using assms by (simp add: getGlobalPackages_def execAsync_def)

theorem getGlobalPackages_failed_listing_is_empty_witness:
  "exec_result sample_env [] (list_command bun) = Inl (Failure (lit ''Error: Command failed''))
   \<and> getGlobalPackages sample_env bun [] =
       (Inr [], [Exec (list_command bun) (Inl (Failure (lit ''Error: Command failed'')))])
   \<and> exec_result silent_env [] (list_command bun) = Inr []
   \<and> parse_listing silent_env bun [] = Inr []
   \<and> fst (getGlobalPackages silent_env bun []) = fst (getGlobalPackages sample_env bun [])"
proof -
  have a: "exec_result sample_env [] (list_command bun) = Inl (Failure (lit ''Error: Command failed''))"
    by (simp add: sample_env_simps lit_def)
  have b: "exec_result silent_env [] (list_command bun) = Inr []"
    by (simp add: silent_env_def)
  have c: "parse_listing silent_env bun [] = Inr []"
    by (simp add: nonblank_lines_def trim_def)
  from getGlobalPackages_failed_listing_is_empty [OF a, of silent_env "[]" "[]"] a b c
  show ?thesis by simp
qed

text \<open>
  Claim C5: \<open>getLatestVersion\<close> always returns (it never rejects), and it returns \<open>null\<close>
  when the request fails, when the status of the response is not a success, when the body
  is not JSON, and when the body has no version field.
\<close>

theorem getLatestVersion_absent:
  "(\<exists>v. getLatestVersion e n t =
          (Inr v, t @ [Fetch (lit ''https://registry.npmjs.org/'' @ n @ lit ''/latest'')
                         (fetch_result e t (lit ''https://registry.npmjs.org/'' @ n @ lit ''/latest''))]))
   \<and> (fetch_result e t (lit ''https://registry.npmjs.org/'' @ n @ lit ''/latest'') = Inl x
        \<longrightarrow> fst (getLatestVersion e n t) = Inr Null)
   \<and> (fetch_result e t (lit ''https://registry.npmjs.org/'' @ n @ lit ''/latest'') = Inr resp
        \<and> \<not> ok resp \<longrightarrow> fst (getLatestVersion e n t) = Inr Null)
   \<and> (fetch_result e t (lit ''https://registry.npmjs.org/'' @ n @ lit ''/latest'') = Inr resp
        \<and> ok resp \<and> json resp = Inl y \<longrightarrow> fst (getLatestVersion e n t) = Inr Null)
   \<and> (fetch_result e t (lit ''https://registry.npmjs.org/'' @ n @ lit ''/latest'') = Inr resp
        \<and> ok resp \<and> json resp = Inr data \<and> lacks_version data
        \<longrightarrow> fst (getLatestVersion e n t) = Inr Null)"
proof -
  have "fst (getLatestVersion e n t) = Inr Null"
    if "fetch_result e t (lit ''https://registry.npmjs.org/'' @ n @ lit ''/latest'') = Inr resp"
      "ok resp" "json resp = Inr data" "lacks_version data"
  proof (cases "get_prop data (lit ''version'')")
    case (Inl z)
    with that show ?thesis by (simp add: getLatestVersion_def fetch_def)
  next
    case (Inr v)
    with that get_prop_lacks_version[of data v] show ?thesis
      by (simp add: getLatestVersion_def fetch_def)
  qed
  moreover have "fst (getLatestVersion e n t) = Inr Null"
    if "fetch_result e t (lit ''https://registry.npmjs.org/'' @ n @ lit ''/latest'') = Inl x"
    using that by (simp add: getLatestVersion_def fetch_def)
  moreover have "fst (getLatestVersion e n t) = Inr Null"
    if "fetch_result e t (lit ''https://registry.npmjs.org/'' @ n @ lit ''/latest'') = Inr resp"
      "\<not> ok resp"
    using that by (simp add: getLatestVersion_def fetch_def)
  moreover have "fst (getLatestVersion e n t) = Inr Null"
    if "fetch_result e t (lit ''https://registry.npmjs.org/'' @ n @ lit ''/latest'') = Inr resp"
      "ok resp" "json resp = Inl y"
    using that by (simp add: getLatestVersion_def fetch_def)
  ultimately show ?thesis
    using getLatestVersion_result[of e n t] by blast
qed

theorem getLatestVersion_absent_witness:
  "fetch_result offline_env [] (lit ''https://registry.npmjs.org/'' @ lit ''foo'' @ lit ''/latest'')
     = Inl (Failure (lit ''TypeError: fetch failed''))
   \<and> fst (getLatestVersion offline_env (lit ''foo'') []) = Inr Null
   \<and> fetch_result not_found_env [] (lit ''https://registry.npmjs.org/'' @ lit ''foo'' @ lit ''/latest'')
     = Inr \<lparr>ok = False, json = Inr (Str (lit ''Not Found''))\<rparr>
   \<and> fst (getLatestVersion not_found_env (lit ''foo'') []) = Inr Null
   \<and> fetch_result garbled_env [] (lit ''https://registry.npmjs.org/'' @ lit ''foo'' @ lit ''/latest'')
     = Inr \<lparr>ok = True, json = Inl SyntaxError\<rparr>
   \<and> fst (getLatestVersion garbled_env (lit ''foo'') []) = Inr Null
   \<and> fetch_result no_version_env [] (lit ''https://registry.npmjs.org/'' @ lit ''foo'' @ lit ''/latest'')
     = Inr \<lparr>ok = True, json = Inr (Obj [(lit ''name'', Str (lit ''foo''))])\<rparr>
   \<and> lacks_version (Obj [(lit ''name'', Str (lit ''foo''))])
   \<and> fst (getLatestVersion no_version_env (lit ''foo'') []) = Inr Null"
proof -
  let ?url = "lit ''https://registry.npmjs.org/'' @ lit ''foo'' @ lit ''/latest''"
  have f1: "fetch_result offline_env [] ?url = Inl (Failure (lit ''TypeError: fetch failed''))"
    by (simp add: offline_env_def)
  have f2: "fetch_result not_found_env [] ?url = Inr \<lparr>ok = False, json = Inr (Str (lit ''Not Found''))\<rparr>"
    by (simp add: not_found_env_def)
  have f3: "fetch_result garbled_env [] ?url = Inr \<lparr>ok = True, json = Inl SyntaxError\<rparr>"
    by (simp add: garbled_env_def)
  have f4: "fetch_result no_version_env [] ?url =
      Inr \<lparr>ok = True, json = Inr (Obj [(lit ''name'', Str (lit ''foo''))])\<rparr>"
    by (simp add: no_version_env_def)
  have l: "lacks_version (Obj [(lit ''name'', Str (lit ''foo''))])"
    by (simp add: lit_def)
  have 1: "fst (getLatestVersion offline_env (lit ''foo'') []) = Inr Null"
    using f1 getLatestVersion_absent
      [of offline_env "lit ''foo''" "[]" "Failure (lit ''TypeError: fetch failed'')"]
    by simp
  have 2: "fst (getLatestVersion not_found_env (lit ''foo'') []) = Inr Null"
    using f2 getLatestVersion_absent
      [of not_found_env "lit ''foo''" "[]" _ "\<lparr>ok = False, json = Inr (Str (lit ''Not Found''))\<rparr>"]
    by simp
  have 3: "fst (getLatestVersion garbled_env (lit ''foo'') []) = Inr Null"
    using f3 getLatestVersion_absent
      [of garbled_env "lit ''foo''" "[]" _ "\<lparr>ok = True, json = Inl SyntaxError\<rparr>" SyntaxError]
    by simp
  have 4: "fst (getLatestVersion no_version_env (lit ''foo'') []) = Inr Null"
    using f4 l getLatestVersion_absent
      [of no_version_env "lit ''foo''" "[]" _
          "\<lparr>ok = True, json = Inr (Obj [(lit ''name'', Str (lit ''foo''))])\<rparr>" _
          "Obj [(lit ''name'', Str (lit ''foo''))]"]
    by simp
  from f1 f2 f3 f4 l 1 2 3 4 show ?thesis by simp
qed

text \<open>
  Claim C7: \<open>getGlobalPackages(pm)\<close> only emits records whose manager is \<open>pm\<close>; the
  packages enumerated for the detected managers are all attributed to a detected manager;
  and these are the packages a run works on: \<open>run\<close> and \<open>execute\<close> enumerate the
  managers that detection returned and carry the result into the Checking state, and
  every list command in the trace of a run belongs to a manager whose probe succeeded in
  that run.
\<close>

theorem packages_attributed_to_detected_managers:
  "(getGlobalPackages e m t = (Inr packages, t1) \<longrightarrow> (\<forall>p \<in> set packages. pm p = m))
   \<and> (detectPackageManagers e ta = (Inr detected, tb)
        \<and> fetch_packages e detected [] tc = (Inr allPackages, td)
        \<longrightarrow> (\<forall>p \<in> set allPackages. pm p \<in> set detected))
   \<and> (detectPackageManagers e
          (t0 @ [Ui ConsoleClear,
                 Ui (Intro (paint e BgCyan (paint e Black (lit '' @xystack/up '')))),
                 Ui (SpinnerStart (lit ''Detecting package managers''))]) = (Inr detected, tb)
        \<and> detected \<noteq> []
        \<and> fetch_packages e detected []
             (tb @ [Ui (SpinnerStop (found_managers_message e detected)),
                    Ui (SpinnerStart (lit ''Fetching global packages''))]) = (Inr allPackages, td)
        \<and> allPackages \<noteq> []
        \<longrightarrow> run e t0 =
              run_checking e allPackages
                (td @ [Ui (SpinnerStop (found_packages_message e (length allPackages))),
                       Ui (SpinnerStart (lit ''Checking for updates''))]))
   \<and> (detectPackageManagers e (t0 @ [Ui (SpinnerStart (lit ''Detecting package managers''))])
          = (Inr detected, tb)
        \<and> detected \<noteq> []
        \<and> fetch_packages e detected []
             (tb @ [Ui (SpinnerSucceed (found_managers_message e detected)),
                    Ui (SpinnerStart (lit ''Fetching global packages''))]) = (Inr allPackages, td)
        \<and> allPackages \<noteq> []
        \<longrightarrow> execute e all t0 =
              execute_checking e all allPackages
                (td @ [Ui (SpinnerSucceed (found_packages_message e (length allPackages))),
                       Ui (SpinnerStart (lit ''Checking for updates''))]))
   \<and> (run e [] = (out, tr) \<and> list_command m' \<in> set (execs tr)
        \<longrightarrow> (\<exists>answer. Exec (lit ''which '' @ pm_string m') (Inr answer) \<in> set tr))
   \<and> (execute e all [] = (res, tr') \<and> list_command m' \<in> set (execs tr')
        \<longrightarrow> (\<exists>answer. Exec (lit ''which '' @ pm_string m') (Inr answer) \<in> set tr'))"
proof -
  have 5: "\<exists>answer. Exec (lit ''which '' @ pm_string m') (Inr answer) \<in> set tr"
    if "run e [] = (out, tr)" "list_command m' \<in> set (execs tr)"
    using that run_lists_detected_only[of e "[]" out tr m'] by simp
  have 6: "\<exists>answer. Exec (lit ''which '' @ pm_string m') (Inr answer) \<in> set tr'"
    if "execute e all [] = (res, tr')" "list_command m' \<in> set (execs tr')"
    using that execute_lists_detected_only[of e all "[]" res tr' m'] by simp
  have 1: "\<forall>p \<in> set packages. pm p = m" if "getGlobalPackages e m t = (Inr packages, t1)"
    using that getGlobalPackages_result[of e m t] by auto
  have 2: "\<forall>p \<in> set allPackages. pm p \<in> set detected"
    if "fetch_packages e detected [] tc = (Inr allPackages, td)"
    using that fetch_packages_result[of e detected "[]" tc] by auto
  have 3: "run e t0 =
        run_checking e allPackages
          (td @ [Ui (SpinnerStop (found_packages_message e (length allPackages))),
                 Ui (SpinnerStart (lit ''Checking for updates''))])"
    if "detectPackageManagers e
          (t0 @ [Ui ConsoleClear,
                 Ui (Intro (paint e BgCyan (paint e Black (lit '' @xystack/up '')))),
                 Ui (SpinnerStart (lit ''Detecting package managers''))]) = (Inr detected, tb)"
      "detected \<noteq> []"
      "fetch_packages e detected []
             (tb @ [Ui (SpinnerStop (found_managers_message e detected)),
                    Ui (SpinnerStart (lit ''Fetching global packages''))]) = (Inr allPackages, td)"
      "allPackages \<noteq> []"
    using that by (simp add: run_def run_enumerating_def)
  have 4: "execute e all t0 =
        execute_checking e all allPackages
          (td @ [Ui (SpinnerSucceed (found_packages_message e (length allPackages))),
                 Ui (SpinnerStart (lit ''Checking for updates''))])"
    if "detectPackageManagers e (t0 @ [Ui (SpinnerStart (lit ''Detecting package managers''))])
          = (Inr detected, tb)"
      "detected \<noteq> []"
      "fetch_packages e detected []
             (tb @ [Ui (SpinnerSucceed (found_managers_message e detected)),
                    Ui (SpinnerStart (lit ''Fetching global packages''))]) = (Inr allPackages, td)"
      "allPackages \<noteq> []"
    using that by (simp add: execute_def execute_enumerating_def)
  from 1 2 3 4 5 6 show ?thesis by blast
qed

theorem packages_attributed_to_detected_managers_witness:
  "detectPackageManagers sample_env [] = (Inr [pnpm], take 4 (drop 3 sample_prefix))
   \<and> fetch_packages sample_env [pnpm] [] [] =
       (Inr [foo_listed], [Exec (lit ''pnpm list -g --depth 0'') (Inr (lit ''foo 1.0.0''))])
   \<and> getGlobalPackages sample_env pnpm [] =
       (Inr [foo_listed], [Exec (lit ''pnpm list -g --depth 0'') (Inr (lit ''foo 1.0.0''))])
   \<and> pm foo_listed = pnpm \<and> pm foo_listed \<in> set [pnpm]
   \<and> list_command pnpm \<in> set (execs (snd (run sample_env [])))
   \<and> Exec (lit ''which pnpm'') (Inr (lit ''/usr/bin/pnpm'')) \<in> set (snd (run sample_env []))"
proof -
  have r: "list_command pnpm \<in> set (execs (snd (run sample_env [])))"
    "Exec (lit ''which pnpm'') (Inr (lit ''/usr/bin/pnpm'')) \<in> set (snd (run sample_env []))"
    by (simp_all add: run_sample_trace sample_prefix_def)
  have d: "detectPackageManagers sample_env [] = (Inr [pnpm], take 4 (drop 3 sample_prefix))"
    by (simp add: detect_sample sample_prefix_def)
  have g: "getGlobalPackages sample_env pnpm [] =
       (Inr [foo_listed], [Exec (lit ''pnpm list -g --depth 0'') (Inr (lit ''foo 1.0.0''))])"
    by (simp add: list_sample)
  have f: "fetch_packages sample_env [pnpm] [] [] =
       (Inr [foo_listed], [Exec (lit ''pnpm list -g --depth 0'') (Inr (lit ''foo 1.0.0''))])"
    by (simp add: list_sample)
  from packages_attributed_to_detected_managers
         [of sample_env pnpm "[]" "[foo_listed]"
             "[Exec (lit ''pnpm list -g --depth 0'') (Inr (lit ''foo 1.0.0''))]"
             "[]" "[pnpm]" "take 4 (drop 3 sample_prefix)" "[]" "[foo_listed]"
             "[Exec (lit ''pnpm list -g --depth 0'') (Inr (lit ''foo 1.0.0''))]"]
       d g f r
  show ?thesis by simp
qed

text \<open>
  Claim C3: in the Upgrading state of \<open>run\<close> and of \<open>execute\<close>, whatever the commands
  answer, the commands run are exactly the batched upgrade commands of the groups, one per
  group and in order. The groups have distinct managers and distinct commands, cover the
  managers of the selection, and each holds the selected packages of its manager (at
  least one).
\<close>

theorem every_group_attempted_once:
  "execs (snd (run_upgrading e selected t)) = execs t @ map group_command (groupByPM selected)
   \<and> execs (snd (execute_upgrading e selected t)) = execs t @ map group_command (groupByPM selected)
   \<and> distinct (map fst (groupByPM selected))
   \<and> distinct (map group_command (groupByPM selected))
   \<and> fst ` set (groupByPM selected) = pm ` set selected
   \<and> (\<forall>g \<in> set (groupByPM selected).
         snd g = filter (\<lambda>p. pm p = fst g) selected \<and> snd g \<noteq> [])"
proof -
  obtain d where "run_upgrading e selected t =
      (Return (),
       t @ d @ [Ui (SpinnerStop (lit ''All packages upgraded'')),
                Ui (Outro (paint e Green (lit ''Successfully upgraded all selected packages!'')))])"
    "execs d = map group_command (groupByPM selected)"
    using run_upgrading_trace[of e selected t] by blast
  then have 1: "execs (snd (run_upgrading e selected t)) =
      execs t @ map group_command (groupByPM selected)"
    by simp
  obtain r d' where "execute_upgrading e selected t = (Inr r, t @ d')"
    "execs d' = map group_command (groupByPM selected)"
    using execute_upgrading_report[of e selected t] by blast
  then have 2: "execs (snd (execute_upgrading e selected t)) =
      execs t @ map group_command (groupByPM selected)"
    by simp
  from 1 2 distinct_groupByPM[of selected] distinct_group_commands[OF distinct_groupByPM, of selected]
    groupByPM_keys[of selected] groupByPM_groups[of _ selected]
  show ?thesis by blast
qed

lemma groupByPM_foo_bar:
  "groupByPM [foo_update, bar_update] = [(pnpm, [foo_update]), (npm, [bar_update])]"
  by (simp add: groupByPM_def group_step_def foo_update_def bar_update_def)

lemma group_commands_foo_bar:
  "group_command (pnpm, [foo_update]) = lit ''pnpm add -g foo@latest''"
  "group_command (npm, [bar_update]) = lit ''npm install -g bar@latest''"
  by (simp_all add: group_command_def foo_update_def bar_update_def lit_def)

lemma run_upgrading_foo_bar_failures:
  "failed_execs (snd (run_upgrading sample_env [foo_update, bar_update] [])) =
     [lit ''pnpm add -g foo@latest'', lit ''npm install -g bar@latest'']"
  unfolding run_upgrading_def groupByPM_foo_bar
  by (simp add: upgradePackages_def execAsync_def sample_env_simps foo_update_def
      bar_update_def lit_def)

theorem every_group_attempted_once_witness:
  "execs (snd (run_upgrading sample_env [foo_update, bar_update] [])) =
     [lit ''pnpm add -g foo@latest'', lit ''npm install -g bar@latest'']
   \<and> failed_execs (snd (run_upgrading sample_env [foo_update, bar_update] [])) =
     [lit ''pnpm add -g foo@latest'', lit ''npm install -g bar@latest'']
   \<and> execs (snd (execute_upgrading sample_env [foo_update, bar_update] [])) =
     [lit ''pnpm add -g foo@latest'', lit ''npm install -g bar@latest'']
   \<and> groupByPM [foo_update, bar_update] = [(pnpm, [foo_update]), (npm, [bar_update])]"
  using every_group_attempted_once[of sample_env "[foo_update, bar_update]" "[]"]
    run_upgrading_foo_bar_failures
  by (simp add: groupByPM_foo_bar group_commands_foo_bar)



text \<open>
  Claim C2 fails for \<open>run\<close>. On the sample environment the one upgrade command fails; \<open>run\<close>
  logs the failure of pnpm with its error and then reports success all the same. (On the
  same input \<open>execute\<close> reports no success and lists the failure.)
\<close>

theorem run_reports_success_after_failed_upgrade:
  "fst (run sample_env []) = Return ()
   \<and> Exec (lit ''pnpm add -g foo@latest'') (Inl (Failure (lit ''Error: Command failed'')))
        \<in> set (snd (run sample_env []))
   \<and> Ui (LogError (lit ''pnpm: Error: Command failed'')) \<in> set (snd (run sample_env []))
   \<and> last (butlast (snd (run sample_env []))) = Ui (SpinnerStop (lit ''All packages upgraded''))
   \<and> last (snd (run sample_env [])) =
        Ui (Outro (lit ''Successfully upgraded all selected packages!''))
   \<and> map_sum id success (fst (execute sample_env None [])) = Inr False
   \<and> map_sum id failed (fst (execute sample_env None [])) =
        Inr (Some [lit ''pnpm: Error: Command failed''])"
  by (simp add: run_sample_trace execute_sample_result butlast_append)

end
